theory Spec2Isabelle
  imports Main
begin

section \<open>Data model (server/src/db/migrate.ts)\<close>

text \<open>
  The tables the qualification routes read and write. Identifiers are the UUID strings
  of the schema; only the columns that the routes under study touch are kept. A table is
  the list of its rows in the order in which an unordered \<^verbatim>\<open>SELECT\<close> returns them.
  Strings are byte strings: case folding and white space are those of ASCII.
\<close>

type_synonym uuid = string

record pilot_row =
  p_id :: uuid
  p_callsign :: string
  p_wing_id :: uuid

record skill_row =
  s_id :: uuid
  s_wing_id :: uuid
  s_name :: string

record qualification =
  q_pilot_id :: uuid
  q_skill_id :: uuid
  q_status :: string
  q_last_updated :: nat
  q_updated_by :: string

record db =
  pilots :: "pilot_row list"
  skills :: "skill_row list"
  qualifications :: "qualification list"

text \<open>The caller identity that the \<^verbatim>\<open>authenticate\<close> middleware puts in \<^verbatim>\<open>req.user\<close>.\<close>

record user =
  u_id :: uuid
  u_email :: string
  u_role :: string
  u_wing_id :: "uuid option"

text \<open>
  What a handler sends back. \<open>NoResponse\<close> is a handler that throws before it has sent
  anything: its promise rejects and the handler itself answers nothing.
\<close>

datatype response =
    Error nat string
  | ImportReport nat nat "string list"
  | QualificationJson qualification
  | BackfillJson nat
  | StatsJson nat nat
  | NoResponse

text \<open>An exception thrown by a statement sent to the store.\<close>

datatype err = StoreError

section \<open>Strings\<close>

definition is_space :: "char \<Rightarrow> bool" where
  "is_space c = (c \<in> {CHR 0x09, CHR 0x0A, CHR 0x0B, CHR 0x0C, CHR 0x0D, CHR 0x20})"

definition trim :: "string \<Rightarrow> string" where
  "trim s = rev (dropWhile is_space (rev (dropWhile is_space s)))"

definition upper_char :: "char \<Rightarrow> char" where
  "upper_char c =
     (if (97::nat) \<le> of_char c \<and> of_char c \<le> (122::nat) then char_of (of_char c - (32::nat)) else c)"

definition lower_char :: "char \<Rightarrow> char" where
  "lower_char c =
     (if (65::nat) \<le> of_char c \<and> of_char c \<le> (90::nat) then char_of (of_char c + (32::nat)) else c)"

definition toUpperCase :: "string \<Rightarrow> string" where
  "toUpperCase s = map upper_char s"

definition toLowerCase :: "string \<Rightarrow> string" where
  "toLowerCase s = map lower_char s"

definition digit_char :: "nat \<Rightarrow> char" where
  "digit_char d = char_of (48 + d)"

function show_nat :: "nat \<Rightarrow> string" where
  "show_nat n = (if n < 10 then [digit_char n] else show_nat (n div 10) @ [digit_char (n mod 10)])"
  by pat_completeness auto
termination
  by (relation "measure (\<lambda>n. n)") auto

declare show_nat.simps [simp del]

text \<open>
  A request field of JavaScript type string that may be absent: \<open>None\<close> is
  \<^verbatim>\<open>undefined\<close> or \<^verbatim>\<open>null\<close>. \<open>falsy\<close> is the test \<^verbatim>\<open>!field\<close>.
\<close>

definition falsy :: "string option \<Rightarrow> bool" where
  "falsy f = (f = None \<or> f = Some [])"

definition str :: "string option \<Rightarrow> string" where
  "str f = (case f of None \<Rightarrow> [] | Some s \<Rightarrow> s)"

section \<open>The store's pattern match\<close>

text \<open>
  \<^verbatim>\<open>text ILIKE pattern\<close> of PostgreSQL: \<^verbatim>\<open>%\<close> matches any run of characters,
  \<^verbatim>\<open>_\<close> any one character, a backslash makes the next pattern character literal, and
  letters are compared without case. A pattern that ends in a lone backslash matches no
  text; where PostgreSQL rejects such a pattern instead, the statement throws, which is a
  fault of the statement as modelled by \<open>query\<close> below.
\<close>

fun like_match :: "string \<Rightarrow> string \<Rightarrow> bool" where
  "like_match [] t = (t = [])"
| "like_match (p # ps) t =
     (if p = CHR ''%'' then
        (like_match ps t \<or> (case t of [] \<Rightarrow> False | c # t' \<Rightarrow> like_match (p # ps) t'))
      else if p = CHR ''_'' then
        (case t of [] \<Rightarrow> False | c # t' \<Rightarrow> like_match ps t')
      else if p = CHR 0x5C then
        (case ps of [] \<Rightarrow> False
         | e # ps' \<Rightarrow> (case t of [] \<Rightarrow> False | c # t' \<Rightarrow> c = e \<and> like_match ps' t'))
      else
        (case t of [] \<Rightarrow> False | c # t' \<Rightarrow> c = p \<and> like_match ps t'))"

definition ilike :: "string \<Rightarrow> string \<Rightarrow> bool" where
  "ilike txt pat = like_match (toLowerCase pat) (toLowerCase txt)"

text \<open>
  An operation on the store: a statement sent through the pool or a client, or the request
  for a client. The store may throw on any of them: \<open>fault n\<close> says whether it does on
  the operation number \<open>n\<close> of the request, counted from 0. So \<open>no_fault\<close> is a store
  that never throws, \<open>fault_at k\<close> one that throws once, on the operation \<open>k\<close>, and
  \<open>down_from k\<close> one that is unavailable from the operation \<open>k\<close> on. An operation that goes through hands back its
  rows; either way the counter advances. An operation that throws has no effect.
\<close>

definition query :: "(nat \<Rightarrow> bool) \<Rightarrow> nat \<Rightarrow> 'a \<Rightarrow> (err \<times> nat) + ('a \<times> nat)" where
  "query fault n rows = (if fault n then Inl (StoreError, Suc n) else Inr (rows, Suc n))"

definition no_fault :: "nat \<Rightarrow> bool" where
  "no_fault n = False"


definition down_from :: "nat \<Rightarrow> nat \<Rightarrow> bool" where
  "down_from k n = (k \<le> n)"

text \<open>\<^verbatim>\<open>SELECT id, wing_id FROM pilots WHERE callsign ILIKE $1\<close>\<close>

definition select_pilots :: "pilot_row list \<Rightarrow> string \<Rightarrow> pilot_row list" where
  "select_pilots ps pat = filter (\<lambda>p. ilike (p_callsign p) pat) ps"

text \<open>\<^verbatim>\<open>SELECT id, wing_id FROM skills WHERE name ILIKE $1\<close>\<close>

definition select_skills :: "skill_row list \<Rightarrow> string \<Rightarrow> skill_row list" where
  "select_skills ss pat = filter (\<lambda>s. ilike (s_name s) pat) ss"

text \<open>
  \<^verbatim>\<open>INSERT INTO qualifications ... ON CONFLICT (pilot_id, skill_id) DO UPDATE SET
  status = $3, last_updated = NOW(), updated_by = $4\<close>
\<close>

definition same_key :: "uuid \<Rightarrow> uuid \<Rightarrow> qualification \<Rightarrow> bool" where
  "same_key pid sid q = (q_pilot_id q = pid \<and> q_skill_id q = sid)"

definition upsert :: "uuid \<Rightarrow> uuid \<Rightarrow> string \<Rightarrow> nat \<Rightarrow> string \<Rightarrow> qualification list \<Rightarrow> qualification list" where
  "upsert pid sid st now by qs =
     (if \<exists>q \<in> set qs. same_key pid sid q
      then map (\<lambda>q. if same_key pid sid q
                    then q\<lparr>q_status := st, q_last_updated := now, q_updated_by := by\<rparr> else q) qs
      else qs @ [\<lparr>q_pilot_id = pid, q_skill_id = sid, q_status = st,
                  q_last_updated = now, q_updated_by = by\<rparr>])"

text \<open>
  The store as a client sees it: the committed database, and the qualification table of
  the transaction that the client has open, if any. BEGIN opens a transaction on the
  committed table; a write goes to the open transaction, or straight to the committed
  table when none is open; COMMIT makes the transaction's table the committed one;
  ROLLBACK drops it.
\<close>

record store =
  committed :: db
  open_tx :: "qualification list option"

definition exec_begin :: "store \<Rightarrow> store" where
  "exec_begin s =
     (case open_tx s of
        None \<Rightarrow> s\<lparr>open_tx := Some (qualifications (committed s))\<rparr>
      | Some t \<Rightarrow> s)"

definition exec_upsert :: "uuid \<Rightarrow> uuid \<Rightarrow> string \<Rightarrow> nat \<Rightarrow> string \<Rightarrow> store \<Rightarrow> store" where
  "exec_upsert pid sid st now by s =
     (case open_tx s of
        Some t \<Rightarrow> s\<lparr>open_tx := Some (upsert pid sid st now by t)\<rparr>
      | None \<Rightarrow>
          s\<lparr>committed :=
              (committed s)\<lparr>qualifications := upsert pid sid st now by (qualifications (committed s))\<rparr>\<rparr>)"

definition exec_commit :: "store \<Rightarrow> store" where
  "exec_commit s =
     (case open_tx s of
        Some t \<Rightarrow> \<lparr>committed = (committed s)\<lparr>qualifications := t\<rparr>, open_tx = None\<rparr>
      | None \<Rightarrow> s)"

definition exec_rollback :: "store \<Rightarrow> store" where
  "exec_rollback s = s\<lparr>open_tx := None\<rparr>"

text \<open>A store with no transaction open.\<close>

definition idle :: "db \<Rightarrow> store" where
  "idle d = \<lparr>committed = d, open_tx = None\<rparr>"

section \<open>Middleware (server/src/middleware/auth.ts)\<close>

definition requireRole :: "string list \<Rightarrow> user \<Rightarrow> bool" where
  "requireRole roles u = (u_role u \<in> set roles)"

section \<open>POST /api/qualifications/bulk (server/src/routes/qualifications.ts)\<close>

record import_record =
  callsign :: "string option"
  skill_name :: "string option"
  status :: "string option"

text \<open>The \<^verbatim>\<open>records\<close> member of the request body.\<close>

datatype records_field = Absent | NotArray | Array "import_record list"

definition validStatuses :: "string list" where
  "validStatuses = [''NMQ'', ''MQT'', ''FMQ'', ''IP'']"

definition dq :: string where
  "dq = [CHR 0x22]"

definition row_prefix :: "nat \<Rightarrow> string" where
  "row_prefix i = ''Row '' @ show_nat (i + 1) @ '': ''"

definition msg_missing :: "nat \<Rightarrow> string" where
  "msg_missing i = row_prefix i @ ''missing callsign, skill_name, or status''"

definition msg_invalid_status :: "nat \<Rightarrow> string \<Rightarrow> string" where
  "msg_invalid_status i st = row_prefix i @ ''invalid status '' @ dq @ st @ dq"

definition msg_pilot_not_found :: "nat \<Rightarrow> string \<Rightarrow> string" where
  "msg_pilot_not_found i cs = row_prefix i @ ''pilot '' @ dq @ cs @ dq @ '' not found''"

definition msg_pilot_not_in_wing :: "nat \<Rightarrow> string \<Rightarrow> string" where
  "msg_pilot_not_in_wing i cs = row_prefix i @ ''pilot '' @ dq @ cs @ dq @ '' is not in your wing''"

definition msg_skill_not_found :: "nat \<Rightarrow> string \<Rightarrow> string" where
  "msg_skill_not_found i sn = row_prefix i @ ''skill '' @ dq @ sn @ dq @ '' not found''"

definition msg_skill_other_wing :: "nat \<Rightarrow> string \<Rightarrow> string" where
  "msg_skill_other_wing i sn =
     row_prefix i @ ''skill '' @ dq @ sn @ dq @ '' does not belong to pilot'' @ [CHR 0x27] @ ''s wing''"

definition msg_skill_not_in_wing :: "nat \<Rightarrow> string \<Rightarrow> string" where
  "msg_skill_not_in_wing i sn = row_prefix i @ ''skill '' @ dq @ sn @ dq @ '' is not in your wing''"

text \<open>
  The checks of one pass of the loop, up to the statement that writes: either the record
  is skipped with a message, or it reaches the upsert with the pilot id, the skill id and
  the status to store. The second component is the statement counter.
\<close>

datatype verdict = Skip string | Accept uuid uuid string

definition check_record ::
  "db \<Rightarrow> user \<Rightarrow> (nat \<Rightarrow> bool) \<Rightarrow> nat \<Rightarrow> import_record \<Rightarrow> nat \<Rightarrow> (err \<times> nat) + (verdict \<times> nat)" where
  "check_record d u fault i r n =
     (if falsy (callsign r) \<or> falsy (skill_name r) \<or> falsy (status r)
      then Inr (Skip (msg_missing i), n)
      else if toUpperCase (str (status r)) \<notin> set validStatuses
      then Inr (Skip (msg_invalid_status i (str (status r))), n)
      else
        (case query fault n (select_pilots (pilots d) (trim (str (callsign r)))) of
           Inl e \<Rightarrow> Inl e
         | Inr (pilotResult, n1) \<Rightarrow>
            (case pilotResult of
               [] \<Rightarrow> Inr (Skip (msg_pilot_not_found i (str (callsign r))), n1)
             | p # _ \<Rightarrow>
                if u_role u = ''instructor'' \<and> Some (p_wing_id p) \<noteq> u_wing_id u
                then Inr (Skip (msg_pilot_not_in_wing i (str (callsign r))), n1)
                else
                  (case query fault n1 (select_skills (skills d) (trim (str (skill_name r)))) of
                     Inl e \<Rightarrow> Inl e
                   | Inr (skillResult, n2) \<Rightarrow>
                      (case skillResult of
                         [] \<Rightarrow> Inr (Skip (msg_skill_not_found i (str (skill_name r))), n2)
                       | s # _ \<Rightarrow>
                          if s_wing_id s \<noteq> p_wing_id p
                          then Inr (Skip (msg_skill_other_wing i (str (skill_name r))), n2)
                          else if u_role u = ''instructor'' \<and> Some (s_wing_id s) \<noteq> u_wing_id u
                          then Inr (Skip (msg_skill_not_in_wing i (str (skill_name r))), n2)
                          else Inr (Accept (p_id p) (s_id s) (toUpperCase (str (status r))), n2))))))"

text \<open>
  The variables of the handler that the loop updates, the store behind the client and the
  number of operations sent so far. The lookups read pilots and skills, which the request
  does not write.
\<close>

record import_state =
  imported :: nat
  skipped :: nat
  errors :: "string list"
  conn :: store
  stmts :: nat

text \<open>
  One pass of the loop. When a statement throws, the pass ends with the exception and the
  state at that point.
\<close>

definition import_step ::
  "db \<Rightarrow> user \<Rightarrow> nat \<Rightarrow> (nat \<Rightarrow> bool) \<Rightarrow> nat \<Rightarrow> import_record \<Rightarrow> import_state
     \<Rightarrow> (err \<times> import_state) + import_state" where
  "import_step d u now fault i r st =
     (case check_record d u fault i r (stmts st) of
        Inl (e, n) \<Rightarrow> Inl (e, st\<lparr>stmts := n\<rparr>)
      | Inr (Skip m, n) \<Rightarrow>
          Inr (st\<lparr>errors := errors st @ [m], skipped := skipped st + 1, stmts := n\<rparr>)
      | Inr (Accept pid sid s, n) \<Rightarrow>
          (case query fault n () of
             Inl (e, n') \<Rightarrow> Inl (e, st\<lparr>stmts := n'\<rparr>)
           | Inr (_, n') \<Rightarrow>
               Inr (st\<lparr>conn := exec_upsert pid sid s now (u_email u) (conn st),
                       imported := imported st + 1, stmts := n'\<rparr>)))"

fun import_loop ::
  "db \<Rightarrow> user \<Rightarrow> nat \<Rightarrow> (nat \<Rightarrow> bool) \<Rightarrow> nat \<Rightarrow> import_record list \<Rightarrow> import_state
     \<Rightarrow> (err \<times> import_state) + import_state" where
  "import_loop d u now fault i [] st = Inr st"
| "import_loop d u now fault i (r # rs) st =
     (case import_step d u now fault i r st of
        Inl x \<Rightarrow> Inl x
      | Inr st' \<Rightarrow> import_loop d u now fault (i + 1) rs st')"

text \<open>The variables as the handler sets them before the \<^verbatim>\<open>try\<close> block, \<open>n\<close> operations sent.\<close>

definition init_state :: "db \<Rightarrow> nat \<Rightarrow> import_state" where
  "init_state d n = \<lparr>imported = 0, skipped = 0, errors = [], conn = idle d, stmts = n\<rparr>"

text \<open>The body of the \<^verbatim>\<open>try\<close> block: BEGIN, the loop, COMMIT.\<close>

definition bulk_tx ::
  "db \<Rightarrow> user \<Rightarrow> nat \<Rightarrow> (nat \<Rightarrow> bool) \<Rightarrow> import_record list \<Rightarrow> import_state
     \<Rightarrow> (err \<times> import_state) + import_state" where
  "bulk_tx d u now fault recs st0 =
     (case query fault (stmts st0) () of
        Inl (e, n) \<Rightarrow> Inl (e, st0\<lparr>stmts := n\<rparr>)
      | Inr (_, n) \<Rightarrow>
         (case import_loop d u now fault 0 recs (st0\<lparr>conn := exec_begin (conn st0), stmts := n\<rparr>) of
            Inl x \<Rightarrow> Inl x
          | Inr st \<Rightarrow>
             (case query fault (stmts st) () of
                Inl (e, n') \<Rightarrow> Inl (e, st\<lparr>stmts := n'\<rparr>)
              | Inr (_, n') \<Rightarrow> Inr (st\<lparr>conn := exec_commit (conn st), stmts := n'\<rparr>))))"

text \<open>
  The handler behind \<^verbatim>\<open>requireRole('instructor', 'admin')\<close>. It returns the response and
  the store as the request leaves it. The request for a client, \<^verbatim>\<open>pool.connect()\<close>, is
  the operation 0 and stands before the \<^verbatim>\<open>try\<close> block: when it throws, so does the
  handler. The \<^verbatim>\<open>catch\<close> block first awaits ROLLBACK and then sends the 500 response:
  when ROLLBACK throws, the handler throws out of the \<^verbatim>\<open>catch\<close> block, with the
  transaction neither committed nor rolled back.
\<close>

definition bulk_import ::
  "db \<Rightarrow> user \<Rightarrow> nat \<Rightarrow> (nat \<Rightarrow> bool) \<Rightarrow> records_field \<Rightarrow> response \<times> store" where
  "bulk_import d u now fault body =
     (if \<not> requireRole [''instructor'', ''admin''] u
      then (Error 403 ''Insufficient permissions'', idle d)
      else
        (case body of
           Absent \<Rightarrow> (Error 400 ''records array is required'', idle d)
         | NotArray \<Rightarrow> (Error 400 ''records array is required'', idle d)
         | Array recs \<Rightarrow>
            if length recs = 0 then (Error 400 ''records array is required'', idle d)
            else if length recs > 1000 then (Error 400 ''Maximum 1000 records per import'', idle d)
            else
              (case query fault 0 () of
                 Inl x \<Rightarrow> (NoResponse, idle d)
               | Inr (_, n0) \<Rightarrow>
                  (case bulk_tx d u now fault recs (init_state d n0) of
                     Inr st \<Rightarrow>
                       (ImportReport (imported st) (skipped st) (take 20 (errors st)), conn st)
                   | Inl (e, st) \<Rightarrow>
                       (case query fault (stmts st) () of
                          Inl x \<Rightarrow> (NoResponse, conn st)
                        | Inr y \<Rightarrow> (Error 500 ''Internal server error'', exec_rollback (conn st)))))))"

section \<open>PUT /api/qualifications\<close>

record put_body =
  b_pilot_id :: "string option"
  b_skill_id :: "string option"
  b_status :: "string option"

text \<open>\<^verbatim>\<open>SELECT wing_id FROM pilots WHERE id = $1\<close> and the same on skills.\<close>

definition pilot_by_id :: "pilot_row list \<Rightarrow> uuid \<Rightarrow> pilot_row list" where
  "pilot_by_id ps k = filter (\<lambda>p. p_id p = k) ps"

definition skill_by_id :: "skill_row list \<Rightarrow> uuid \<Rightarrow> skill_row list" where
  "skill_by_id ss k = filter (\<lambda>s. s_id s = k) ss"

text \<open>
  The wing checks that the handler runs for an instructor only: \<open>Inr (Some resp)\<close> is an
  early return, \<open>Inr None\<close> lets the request through.
\<close>

definition instructor_checks ::
  "db \<Rightarrow> user \<Rightarrow> (nat \<Rightarrow> bool) \<Rightarrow> uuid \<Rightarrow> uuid \<Rightarrow> nat \<Rightarrow> (err \<times> nat) + (response option \<times> nat)" where
  "instructor_checks d u fault pid sid n =
     (if u_role u = ''instructor'' then
        (case query fault n (pilot_by_id (pilots d) pid) of
           Inl e \<Rightarrow> Inl e
         | Inr (pilotCheck, n1) \<Rightarrow>
            (case pilotCheck of
               [] \<Rightarrow> Inr (Some (Error 404 ''Pilot not found''), n1)
             | p # _ \<Rightarrow>
                if Some (p_wing_id p) \<noteq> u_wing_id u
                then Inr (Some (Error 403 ''Instructors can only edit pilots in their own wing''), n1)
                else
                  (case query fault n1 (skill_by_id (skills d) sid) of
                     Inl e \<Rightarrow> Inl e
                   | Inr (skillCheck, n2) \<Rightarrow>
                      (case skillCheck of
                         [] \<Rightarrow> Inr (Some (Error 404 ''Skill not found''), n2)
                       | s # _ \<Rightarrow>
                          if Some (s_wing_id s) \<noteq> u_wing_id u
                          then Inr (Some (Error 403 ''Skill does not belong to your wing''), n2)
                          else Inr (None, n2)))))
      else Inr (None, n))"

text \<open>
  The upsert statement of the handler. The foreign keys of the table make the store throw
  when the pilot or the skill does not exist.
\<close>

definition put_upsert ::
  "db \<Rightarrow> user \<Rightarrow> nat \<Rightarrow> (nat \<Rightarrow> bool) \<Rightarrow> uuid \<Rightarrow> uuid \<Rightarrow> string \<Rightarrow> nat
     \<Rightarrow> (err \<times> nat) + (qualification list \<times> nat)" where
  "put_upsert d u now fault pid sid st n =
     (if pilot_by_id (pilots d) pid = [] \<or> skill_by_id (skills d) sid = []
      then Inl (StoreError, Suc n)
      else query fault n (upsert pid sid st now (u_email u) (qualifications d)))"

definition put_qualification ::
  "db \<Rightarrow> user \<Rightarrow> nat \<Rightarrow> (nat \<Rightarrow> bool) \<Rightarrow> put_body \<Rightarrow> response \<times> db" where
  "put_qualification d u now fault body =
     (if \<not> requireRole [''instructor'', ''admin''] u
      then (Error 403 ''Insufficient permissions'', d)
      else if falsy (b_pilot_id body) \<or> falsy (b_skill_id body) \<or> falsy (b_status body)
      then (Error 400 ''pilot_id, skill_id, and status are required'', d)
      else if str (b_status body) \<notin> set validStatuses
      then (Error 400 ''Status must be one of: NMQ, MQT, FMQ, IP'', d)
      else
        (case instructor_checks d u fault (str (b_pilot_id body)) (str (b_skill_id body)) 0 of
           Inl e \<Rightarrow> (Error 500 ''Internal server error'', d)
         | Inr (Some resp, _) \<Rightarrow> (resp, d)
         | Inr (None, n) \<Rightarrow>
            (case put_upsert d u now fault (str (b_pilot_id body)) (str (b_skill_id body))
                    (str (b_status body)) n of
               Inl e \<Rightarrow> (Error 500 ''Internal server error'', d)
             | Inr (qs, _) \<Rightarrow>
                (QualificationJson
                   \<lparr>q_pilot_id = str (b_pilot_id body), q_skill_id = str (b_skill_id body),
                    q_status = str (b_status body), q_last_updated = now, q_updated_by = u_email u\<rparr>,
                 d\<lparr>qualifications := qs\<rparr>))))"

section \<open>GET /api/qualifications/stats\<close>

text \<open>\<^verbatim>\<open>status IN ('FMQ', 'IP')\<close>\<close>

definition fmq_or_ip :: "qualification \<Rightarrow> bool" where
  "fmq_or_ip q = (q_status q = ''FMQ'' \<or> q_status q = ''IP'')"

text \<open>
  The rows that the inner query groups, as the list of their \<^verbatim>\<open>pilot_id\<close>: with a wing, the
  qualifications joined to their pilot and kept when the pilot is in the wing; without,
  the qualifications alone.
\<close>

definition combat_rows :: "db \<Rightarrow> uuid option \<Rightarrow> uuid list" where
  "combat_rows d wing =
     (case wing of
        Some w \<Rightarrow>
          concat (map (\<lambda>q. map (\<lambda>p. q_pilot_id q)
                              (filter (\<lambda>p. q_pilot_id q = p_id p \<and> fmq_or_ip q \<and> p_wing_id p = w) (pilots d)))
                      (qualifications d))
      | None \<Rightarrow> map q_pilot_id (filter fmq_or_ip (qualifications d)))"

text \<open>\<^verbatim>\<open>SELECT k, COUNT(*) ... GROUP BY k\<close>\<close>

definition group_count :: "uuid list \<Rightarrow> (uuid \<times> nat) list" where
  "group_count ks = map (\<lambda>k. (k, length (filter (\<lambda>x. x = k) ks))) (remdups ks)"

text \<open>\<^verbatim>\<open>SELECT COUNT(DISTINCT pilot_id) FROM (... GROUP BY pilot_id HAVING COUNT(*) >= 3)\<close>\<close>

definition combat_ready_query :: "db \<Rightarrow> uuid option \<Rightarrow> nat" where
  "combat_ready_query d wing =
     length (remdups (map fst (filter (\<lambda>g. snd g \<ge> 3) (group_count (combat_rows d wing)))))"

definition total_pilots_query :: "db \<Rightarrow> uuid option \<Rightarrow> nat" where
  "total_pilots_query d wing =
     (case wing of
        Some w \<Rightarrow> length (filter (\<lambda>p. p_wing_id p = w) (pilots d))
      | None \<Rightarrow> length (pilots d))"

text \<open>
  The handler takes the branch with a wing when the query parameter is truthy. The two
  percentages of the response are floating point and are left out.
\<close>

definition stats :: "db \<Rightarrow> (nat \<Rightarrow> bool) \<Rightarrow> string option \<Rightarrow> response" where
  "stats d fault wingId =
     (let wing = (if falsy wingId then None else wingId) in
      if fault 0 \<or> fault 1 \<or> fault 2 then Error 500 ''Internal server error''
      else StatsJson (total_pilots_query d wing) (combat_ready_query d wing))"

section \<open>POST /api/qualifications/backfill\<close>

text \<open>
  The pairs that the \<^verbatim>\<open>SELECT\<close> of the statement yields: pilot and skill of one wing with
  no qualification row.
\<close>

definition backfill_select :: "db \<Rightarrow> (uuid \<times> uuid) list" where
  "backfill_select d =
     concat (map (\<lambda>p. map (\<lambda>s. (p_id p, s_id s))
                         (filter (\<lambda>s. s_wing_id s = p_wing_id p \<and>
                                       \<not> (\<exists>q \<in> set (qualifications d). same_key (p_id p) (s_id s) q))
                                 (skills d)))
                 (pilots d))"

text \<open>\<^verbatim>\<open>INSERT ... ON CONFLICT (pilot_id, skill_id) DO NOTHING\<close> of one row, counting the rows inserted.\<close>

definition insert_do_nothing ::
  "nat \<Rightarrow> string \<Rightarrow> qualification list \<times> nat \<Rightarrow> uuid \<times> uuid \<Rightarrow> qualification list \<times> nat" where
  "insert_do_nothing now by acc k =
     (if \<exists>q \<in> set (fst acc). same_key (fst k) (snd k) q then acc
      else (fst acc @ [\<lparr>q_pilot_id = fst k, q_skill_id = snd k, q_status = ''NMQ'',
                        q_last_updated = now, q_updated_by = by\<rparr>], snd acc + 1))"

definition backfill :: "db \<Rightarrow> user \<Rightarrow> nat \<Rightarrow> (nat \<Rightarrow> bool) \<Rightarrow> response \<times> db" where
  "backfill d u now fault =
     (if \<not> requireRole [''admin''] u then (Error 403 ''Insufficient permissions'', d)
      else
        (case query fault 0 (foldl (insert_do_nothing now (u_email u)) (qualifications d, 0)
                                   (backfill_select d)) of
           Inl e \<Rightarrow> (Error 500 ''Internal server error'', d)
         | Inr (result, _) \<Rightarrow> (BackfillJson (snd result), d\<lparr>qualifications := fst result\<rparr>)))"

section \<open>Notions used to state the properties\<close>

text \<open>
  What the loop decides for a record when no statement throws, and how many lookups it
  sends before deciding.
\<close>

definition verdict_of :: "db \<Rightarrow> user \<Rightarrow> nat \<Rightarrow> import_record \<Rightarrow> verdict" where
  "verdict_of d u i r = (case check_record d u no_fault i r 0 of Inr (v, _) \<Rightarrow> v | Inl _ \<Rightarrow> Skip [])"

definition lookups :: "db \<Rightarrow> user \<Rightarrow> nat \<Rightarrow> import_record \<Rightarrow> nat" where
  "lookups d u i r = (case check_record d u no_fault i r 0 of Inr (_, c) \<Rightarrow> c | Inl _ \<Rightarrow> 0)"

definition is_accept :: "verdict \<Rightarrow> bool" where
  "is_accept v = (case v of Skip _ \<Rightarrow> False | Accept _ _ _ \<Rightarrow> True)"

definition skip_message :: "verdict \<Rightarrow> string option" where
  "skip_message v = (case v of Skip m \<Rightarrow> Some m | Accept _ _ _ \<Rightarrow> None)"

text \<open>The verdicts of a batch whose first record has index \<open>i\<close>, in order.\<close>

fun verdicts :: "db \<Rightarrow> user \<Rightarrow> nat \<Rightarrow> import_record list \<Rightarrow> verdict list" where
  "verdicts d u i [] = []"
| "verdicts d u i (r # rs) = verdict_of d u i r # verdicts d u (i + 1) rs"

definition skip_messages :: "verdict list \<Rightarrow> string list" where
  "skip_messages vs = concat (map (\<lambda>v. case v of Skip m \<Rightarrow> [m] | Accept _ _ _ \<Rightarrow> []) vs)"

definition apply_verdict :: "user \<Rightarrow> nat \<Rightarrow> qualification list \<Rightarrow> verdict \<Rightarrow> qualification list" where
  "apply_verdict u now qs v =
     (case v of Skip _ \<Rightarrow> qs | Accept pid sid s \<Rightarrow> upsert pid sid s now (u_email u) qs)"


text \<open>The characters that a pattern does not take literally.\<close>

definition wildcard :: "char \<Rightarrow> bool" where
  "wildcard c = (c = CHR ''%'' \<or> c = CHR ''_'' \<or> c = CHR 0x5C)"

definition outcome :: "verdict \<Rightarrow> (uuid \<times> uuid \<times> string) option" where
  "outcome v = (case v of Skip _ \<Rightarrow> None | Accept pid sid s \<Rightarrow> Some (pid, sid, s))"

subsection \<open>The validation pipeline as a list of checks\<close>

text \<open>
  The seven checks of the pipeline, each on its own: a check yields its message when it
  fails. A check on a row that an earlier lookup did not find does not fail.
  \<open>first_failure\<close> runs a list of checks in order and stops at the first that fails.
  \<open>spec_order\<close> is the order in which the specification lists the checks;
  \<open>code_order\<close> has the pilot's wing checked before the skill is looked up.
\<close>

type_synonym check = "db \<Rightarrow> user \<Rightarrow> nat \<Rightarrow> import_record \<Rightarrow> string option"

definition first_pilot :: "db \<Rightarrow> import_record \<Rightarrow> pilot_row option" where
  "first_pilot d r =
     (case select_pilots (pilots d) (trim (str (callsign r))) of [] \<Rightarrow> None | p # _ \<Rightarrow> Some p)"

definition first_skill :: "db \<Rightarrow> import_record \<Rightarrow> skill_row option" where
  "first_skill d r =
     (case select_skills (skills d) (trim (str (skill_name r))) of [] \<Rightarrow> None | s # _ \<Rightarrow> Some s)"

definition check_present :: check where
  "check_present d u i r =
     (if falsy (callsign r) \<or> falsy (skill_name r) \<or> falsy (status r)
      then Some (msg_missing i) else None)"

definition check_status :: check where
  "check_status d u i r =
     (if toUpperCase (str (status r)) \<in> set validStatuses then None
      else Some (msg_invalid_status i (str (status r))))"

definition check_pilot_found :: check where
  "check_pilot_found d u i r =
     (case first_pilot d r of
        None \<Rightarrow> Some (msg_pilot_not_found i (str (callsign r)))
      | Some p \<Rightarrow> None)"

definition check_skill_found :: check where
  "check_skill_found d u i r =
     (case first_skill d r of
        None \<Rightarrow> Some (msg_skill_not_found i (str (skill_name r)))
      | Some s \<Rightarrow> None)"

definition check_pilot_wing :: check where
  "check_pilot_wing d u i r =
     (case first_pilot d r of
        None \<Rightarrow> None
      | Some p \<Rightarrow> if u_role u = ''instructor'' \<and> Some (p_wing_id p) \<noteq> u_wing_id u
                  then Some (msg_pilot_not_in_wing i (str (callsign r))) else None)"

definition check_skill_pilot_wing :: check where
  "check_skill_pilot_wing d u i r =
     (case (first_pilot d r, first_skill d r) of
        (Some p, Some s) \<Rightarrow> if s_wing_id s \<noteq> p_wing_id p
                            then Some (msg_skill_other_wing i (str (skill_name r))) else None
      | _ \<Rightarrow> None)"

definition check_skill_wing :: check where
  "check_skill_wing d u i r =
     (case first_skill d r of
        None \<Rightarrow> None
      | Some s \<Rightarrow> if u_role u = ''instructor'' \<and> Some (s_wing_id s) \<noteq> u_wing_id u
                  then Some (msg_skill_not_in_wing i (str (skill_name r))) else None)"

fun first_failure :: "check list \<Rightarrow> check" where
  "first_failure [] d u i r = None"
| "first_failure (c # cs) d u i r =
     (case c d u i r of Some m \<Rightarrow> Some m | None \<Rightarrow> first_failure cs d u i r)"

definition spec_order :: "check list" where
  "spec_order = [check_present, check_status, check_pilot_found, check_skill_found,
                 check_pilot_wing, check_skill_pilot_wing, check_skill_wing]"

definition code_order :: "check list" where
  "code_order = [check_present, check_status, check_pilot_found, check_pilot_wing,
                 check_skill_found, check_skill_pilot_wing, check_skill_wing]"

subsection \<open>The wing invariant\<close>

text \<open>
  A pair of ids is in order when every pilot and every skill that carry them are of one
  wing; the database is when the pair of every qualification row is.
\<close>

definition pair_ok :: "pilot_row list \<Rightarrow> skill_row list \<Rightarrow> uuid \<Rightarrow> uuid \<Rightarrow> bool" where
  "pair_ok ps ss pid sid =
     (\<forall>p \<in> set ps. \<forall>s \<in> set ss. p_id p = pid \<and> s_id s = sid \<longrightarrow> p_wing_id p = s_wing_id s)"

definition same_wing :: "db \<Rightarrow> bool" where
  "same_wing d =
     (\<forall>q \<in> set (qualifications d). pair_ok (pilots d) (skills d) (q_pilot_id q) (q_skill_id q))"

subsection \<open>Combat readiness\<close>

text \<open>
  The skills on which a pilot holds FMQ or IP, and the pilots that the statistics are
  about: all of them, or those of the wing asked for. A pilot is combat ready with three
  such skills or more. \<open>qual_key\<close> is the pair under the table's uniqueness constraint.
\<close>

definition qualified_skills :: "db \<Rightarrow> uuid \<Rightarrow> uuid set" where
  "qualified_skills d pid =
     q_skill_id ` {q \<in> set (qualifications d). q_pilot_id q = pid \<and> fmq_or_ip q}"

definition in_wing :: "db \<Rightarrow> uuid option \<Rightarrow> uuid \<Rightarrow> bool" where
  "in_wing d wing pid =
     (case wing of
        None \<Rightarrow> True
      | Some w \<Rightarrow> (\<exists>p \<in> set (pilots d). p_id p = pid \<and> p_wing_id p = w))"

definition combat_ready :: "db \<Rightarrow> uuid option \<Rightarrow> uuid \<Rightarrow> bool" where
  "combat_ready d wing pid = (in_wing d wing pid \<and> 3 \<le> card (qualified_skills d pid))"

definition qual_key :: "qualification \<Rightarrow> uuid \<times> uuid" where
  "qual_key q = (q_pilot_id q, q_skill_id q)"

section \<open>Example data\<close>

definition ex_db :: db where
  "ex_db = \<lparr>pilots = [\<lparr>p_id = ''p1'', p_callsign = ''VIPER'', p_wing_id = ''w1''\<rparr>,
                      \<lparr>p_id = ''p2'', p_callsign = ''Ghost'', p_wing_id = ''w2''\<rparr>],
            skills = [\<lparr>s_id = ''s1'', s_wing_id = ''w1'', s_name = ''Startup''\<rparr>,
                      \<lparr>s_id = ''s2'', s_wing_id = ''w2'', s_name = ''Landing''\<rparr>],
            qualifications = []\<rparr>"

definition ex_admin :: user where
  "ex_admin = \<lparr>u_id = ''u0'', u_email = ''admin@8vfw'', u_role = ''admin'', u_wing_id = None\<rparr>"

definition ex_instructor :: user where
  "ex_instructor =
     \<lparr>u_id = ''u1'', u_email = ''ip@8vfw'', u_role = ''instructor'', u_wing_id = Some ''w1''\<rparr>"

definition ex_batch :: "import_record list" where
  "ex_batch = [\<lparr>callsign = Some ''viper'', skill_name = Some ''STARTUP'', status = Some ''fmq''\<rparr>,
               \<lparr>callsign = Some ''Maverick'', skill_name = Some ''Startup'', status = Some ''FMQ''\<rparr>,
               \<lparr>callsign = Some ''ghost'', skill_name = Some ''landing'', status = Some ''ip''\<rparr>]"

definition ex_rec_ghost_nope :: import_record where
  "ex_rec_ghost_nope = \<lparr>callsign = Some ''Ghost'', skill_name = Some ''Nope'', status = Some ''FMQ''\<rparr>"

definition ex_rec_ghost :: import_record where
  "ex_rec_ghost = \<lparr>callsign = Some ''ghost'', skill_name = Some ''landing'', status = Some ''ip''\<rparr>"

definition ex_state :: import_state where
  "ex_state = \<lparr>imported = 1, skipped = 0, errors = [],
                conn = \<lparr>committed = ex_db, open_tx = Some []\<rparr>, stmts = 5\<rparr>"

definition ex_rec_wild :: import_record where
  "ex_rec_wild = \<lparr>callsign = Some '' %'', skill_name = Some ''_tart%'', status = Some ''ip''\<rparr>"

definition ex_rec_ghost_xx :: import_record where
  "ex_rec_ghost_xx = \<lparr>callsign = Some ''ghost'', skill_name = Some ''landing'', status = Some ''XX''\<rparr>"



definition ex_put_cross :: put_body where
  "ex_put_cross = \<lparr>b_pilot_id = Some ''p1'', b_skill_id = Some ''s2'', b_status = Some ''FMQ''\<rparr>"

definition ex_cross_row :: qualification where
  "ex_cross_row = \<lparr>q_pilot_id = ''p1'', q_skill_id = ''s2'', q_status = ''FMQ'',
                   q_last_updated = 7, q_updated_by = ''admin@8vfw''\<rparr>"

text \<open>A database with a pilot whose stored callsign is empty.\<close>

definition ex_blank_db :: db where
  "ex_blank_db = ex_db\<lparr>pilots := pilots ex_db @ [\<lparr>p_id = ''p3'', p_callsign = [], p_wing_id = ''w1''\<rparr>]\<rparr>"

text \<open>Pilot p1 holds FMQ or IP on three skills, pilot p2 on two.\<close>

definition ex_stats_db :: db where
  "ex_stats_db =
     \<lparr>pilots = [\<lparr>p_id = ''p1'', p_callsign = ''VIPER'', p_wing_id = ''w1''\<rparr>,
                \<lparr>p_id = ''p2'', p_callsign = ''Ghost'', p_wing_id = ''w1''\<rparr>],
      skills = [\<lparr>s_id = ''s1'', s_wing_id = ''w1'', s_name = ''Startup''\<rparr>,
                \<lparr>s_id = ''s2'', s_wing_id = ''w1'', s_name = ''Landing''\<rparr>,
                \<lparr>s_id = ''s3'', s_wing_id = ''w1'', s_name = ''Refuel''\<rparr>],
      qualifications =
        [\<lparr>q_pilot_id = ''p1'', q_skill_id = ''s1'', q_status = ''FMQ'', q_last_updated = 1, q_updated_by = ''ip@8vfw''\<rparr>,
         \<lparr>q_pilot_id = ''p1'', q_skill_id = ''s2'', q_status = ''IP'', q_last_updated = 1, q_updated_by = ''ip@8vfw''\<rparr>,
         \<lparr>q_pilot_id = ''p1'', q_skill_id = ''s3'', q_status = ''FMQ'', q_last_updated = 1, q_updated_by = ''ip@8vfw''\<rparr>,
         \<lparr>q_pilot_id = ''p2'', q_skill_id = ''s1'', q_status = ''FMQ'', q_last_updated = 1, q_updated_by = ''ip@8vfw''\<rparr>,
         \<lparr>q_pilot_id = ''p2'', q_skill_id = ''s2'', q_status = ''IP'', q_last_updated = 1, q_updated_by = ''ip@8vfw''\<rparr>,
         \<lparr>q_pilot_id = ''p2'', q_skill_id = ''s3'', q_status = ''MQT'', q_last_updated = 1, q_updated_by = ''ip@8vfw''\<rparr>]\<rparr>"

section \<open>The transaction, statement by statement\<close>

lemma query_no_fault [simp]: "query no_fault n x = Inr (x, Suc n)"
  by (simp add: query_def no_fault_def)

lemma find_app:
  "find P (xs @ ys) = (case find P xs of None \<Rightarrow> find P ys | Some x \<Rightarrow> Some x)"
  by (induction xs) auto

lemma find_upt_split:
  assumes "a \<le> b" and "b \<le> c"
  shows "find P [a..<c] = (case find P [a..<b] of None \<Rightarrow> find P [b..<c] | Some k \<Rightarrow> Some k)"
proof -
  have "[a..<c] = [a..<b] @ [b..<c]"
    using assms by (metis le_Suc_ex upt_add_eq_append)
  then show ?thesis by (simp add: find_app)
qed

text \<open>\<open>find fault [a..<b]\<close> is the first operation from \<open>a\<close> and before \<open>b\<close> on which the store throws.\<close>

lemma find_upt_None: "(find P [a..<b] = None) = (\<forall>j. a \<le> j \<and> j < b \<longrightarrow> \<not> P j)"
  by (auto simp: find_None_iff)

lemma find_upt_Some:
  "(find P [a..<b] = Some k) = (a \<le> k \<and> k < b \<and> P k \<and> (\<forall>j. a \<le> j \<and> j < k \<longrightarrow> \<not> P j))"
proof (induction b arbitrary: k)
  case 0
  show ?case by simp
next
  case (Suc b)
  show ?case
  proof (cases "a \<le> b")
    case False
    then show ?thesis by auto
  next
    case True
    show ?thesis
    proof (cases "find P [a..<b]")
      case None
      then have n: "\<forall>j. a \<le> j \<and> j < b \<longrightarrow> \<not> P j" by (simp add: find_upt_None)
      have "find P [a..<Suc b] = (if P b then Some b else None)"
        using True None by (simp add: find_app)
      moreover have "(a \<le> k \<and> k < Suc b \<and> P k \<and> (\<forall>j. a \<le> j \<and> j < k \<longrightarrow> \<not> P j)) = (P b \<and> k = b)"
        using n True by (metis less_Suc_eq order_refl linorder_neqE_nat not_less_eq)
      ultimately show ?thesis by auto
    next
      case (Some x)
      then have x: "a \<le> x \<and> x < b \<and> P x \<and> (\<forall>j. a \<le> j \<and> j < x \<longrightarrow> \<not> P j)"
        using Suc.IH [of x] by simp
      have "find P [a..<Suc b] = Some x"
        using True Some by (simp add: find_app)
      moreover have "(a \<le> k \<and> k < Suc b \<and> P k \<and> (\<forall>j. a \<le> j \<and> j < k \<longrightarrow> \<not> P j)) = (k = x)"
        using x by (metis less_Suc_eq linorder_neqE_nat less_trans)
      ultimately show ?thesis by auto
    qed
  qed
qed

lemma lookups_le: "lookups d u i r \<le> 2"
  by (auto simp: lookups_def check_record_def split: list.splits)

lemma check_record_None:
  "check_record d u no_fault i r n = Inr (verdict_of d u i r, n + lookups d u i r)"
  by (auto simp: check_record_def verdict_of_def lookups_def split: list.splits)

lemma check_record_fault:
  "check_record d u fault i r n =
     (if lookups d u i r = 0 then Inr (verdict_of d u i r, n)
      else if fault n then Inl (StoreError, Suc n)
      else if lookups d u i r = 1 then Inr (verdict_of d u i r, Suc n)
      else if fault (Suc n) then Inl (StoreError, Suc (Suc n))
      else Inr (verdict_of d u i r, Suc (Suc n)))"
  by (auto simp: check_record_def verdict_of_def lookups_def query_def no_fault_def split: list.splits)

lemma check_record_find:
  "check_record d u fault i r n =
     (case find fault [n..<n + lookups d u i r] of
        Some k \<Rightarrow> Inl (StoreError, Suc k)
      | None \<Rightarrow> Inr (verdict_of d u i r, n + lookups d u i r))"
proof -
  have "lookups d u i r = 0 \<or> lookups d u i r = 1 \<or> lookups d u i r = 2"
    using lookups_le [of d u i r] by arith
  then show ?thesis
    by (elim disjE) (simp_all add: check_record_fault)
qed

lemma import_step_None:
  "import_step d u now no_fault i r st =
     Inr (case verdict_of d u i r of
            Skip m \<Rightarrow> st\<lparr>errors := errors st @ [m], skipped := skipped st + 1,
                          stmts := stmts st + lookups d u i r\<rparr>
          | Accept pid sid s \<Rightarrow>
              st\<lparr>conn := exec_upsert pid sid s now (u_email u) (conn st),
                 imported := imported st + 1, stmts := stmts st + lookups d u i r + 1\<rparr>)"
  by (simp add: import_step_def check_record_None split: verdict.splits)

text \<open>
  A pass of the loop sends the operations numbered from \<open>stmts st\<close> up to \<open>stmts st'\<close>. It
  throws on the first of them on which the store does, with the store untouched by the
  pass; otherwise it ends as it does when the store never throws.
\<close>

lemma import_step_fault:
  "\<exists>st'. import_step d u now no_fault i r st = Inr st' \<and> stmts st \<le> stmts st' \<and>
     (\<forall>fault. import_step d u now fault i r st =
        (case find fault [stmts st..<stmts st'] of
           None \<Rightarrow> Inr st'
         | Some k \<Rightarrow> Inl (StoreError, st\<lparr>stmts := Suc k\<rparr>)))"
proof (cases "verdict_of d u i r")
  case (Skip m)
  then show ?thesis
    by (simp add: import_step_None) (simp add: import_step_def check_record_find split: option.splits)
next
  case (Accept pid sid s)
  let ?n = "stmts st + lookups d u i r"
  have e: "find fault [?n..<Suc ?n] = (if fault ?n then Some ?n else None)" for fault
    by simp
  have h: "find fault [stmts st..<Suc ?n] =
          (case find fault [stmts st..<?n] of
             None \<Rightarrow> (if fault ?n then Some ?n else None) | Some k \<Rightarrow> Some k)" for fault
    using find_upt_split [of "stmts st" ?n "Suc ?n" fault] by (simp only: e le_add1 le_SucI le_refl)
  show ?thesis
    using Accept
    by (simp add: import_step_None del: upt_Suc)
       (simp add: import_step_def check_record_find query_def h del: upt_Suc split: option.splits)
qed

text \<open>
  A pass of the loop on which the store does not throw leaves the committed database alone
  when a transaction is open, and leaves it open.
\<close>

lemma import_step_tx:
  assumes "import_step d u now no_fault i r st = Inr st'" and "open_tx (conn st) = Some t"
  shows "committed (conn st') = committed (conn st) \<and> open_tx (conn st') \<noteq> None"
  using assms
  by (cases "verdict_of d u i r") (auto simp: import_step_None exec_upsert_def)

lemma import_loop_fault:
  "\<exists>st'. import_loop d u now no_fault i rs st = Inr st' \<and> stmts st \<le> stmts st' \<and>
     (\<forall>fault. case find fault [stmts st..<stmts st'] of
        None \<Rightarrow> import_loop d u now fault i rs st = Inr st'
      | Some k \<Rightarrow>
          (\<exists>s. import_loop d u now fault i rs st = Inl (StoreError, s) \<and> stmts s = Suc k \<and>
                (open_tx (conn st) \<noteq> None \<longrightarrow>
                   committed (conn s) = committed (conn st) \<and> open_tx (conn s) \<noteq> None)))"
proof (induction rs arbitrary: i st)
  case Nil
  show ?case by simp
next
  case (Cons r rs)
  obtain st1 where s1: "import_step d u now no_fault i r st = Inr st1" "stmts st \<le> stmts st1"
    and f1: "\<And>fault. import_step d u now fault i r st =
               (case find fault [stmts st..<stmts st1] of
                  None \<Rightarrow> Inr st1
                | Some k \<Rightarrow> Inl (StoreError, st\<lparr>stmts := Suc k\<rparr>))"
    using import_step_fault [of d u now i r st] by blast
  obtain st2 where s2: "import_loop d u now no_fault (i + 1) rs st1 = Inr st2" "stmts st1 \<le> stmts st2"
    and f2: "\<And>fault. case find fault [stmts st1..<stmts st2] of
        None \<Rightarrow> import_loop d u now fault (i + 1) rs st1 = Inr st2
      | Some k \<Rightarrow>
          (\<exists>s. import_loop d u now fault (i + 1) rs st1 = Inl (StoreError, s) \<and> stmts s = Suc k \<and>
                (open_tx (conn st1) \<noteq> None \<longrightarrow>
                   committed (conn s) = committed (conn st1) \<and> open_tx (conn s) \<noteq> None))"
    using Cons.IH [of "i + 1" st1] by blast
  have tx: "open_tx (conn st) \<noteq> None \<Longrightarrow>
              committed (conn st1) = committed (conn st) \<and> open_tx (conn st1) \<noteq> None"
    using import_step_tx [OF s1(1)] by auto
  have a: "import_loop d u now no_fault i (r # rs) st = Inr st2"
    using s1 s2 by simp
  have b: "stmts st \<le> stmts st2"
    using s1 s2 by simp
  have c: "case find fault [stmts st..<stmts st2] of
        None \<Rightarrow> import_loop d u now fault i (r # rs) st = Inr st2
      | Some k \<Rightarrow>
          (\<exists>s. import_loop d u now fault i (r # rs) st = Inl (StoreError, s) \<and> stmts s = Suc k \<and>
                (open_tx (conn st) \<noteq> None \<longrightarrow>
                   committed (conn s) = committed (conn st) \<and> open_tx (conn s) \<noteq> None))" for fault
  proof (cases "find fault [stmts st..<stmts st1]")
    case (Some k)
    then have "find fault [stmts st..<stmts st2] = Some k"
      using find_upt_split [OF s1(2) s2(2), of fault] by simp
    moreover have "import_loop d u now fault i (r # rs) st = Inl (StoreError, st\<lparr>stmts := Suc k\<rparr>)"
      using f1 [of fault] Some by simp
    ultimately show ?thesis by simp
  next
    case None
    then have e: "find fault [stmts st..<stmts st2] = find fault [stmts st1..<stmts st2]"
      using find_upt_split [OF s1(2) s2(2), of fault] by simp
    have l: "import_step d u now fault i r st = Inr st1"
      using f1 [of fault] None by simp
    show ?thesis
      using f2 [of fault] tx by (auto simp: e l split: option.splits)
  qed
  show ?case
    using a b c by blast
qed

text \<open>
  When the store never throws the loop ends, and its variables are those read off the
  verdicts; the accepted records are upserted in the open transaction, in order.
\<close>

lemma import_loop_None:
  assumes "open_tx (conn st) = Some t"
  shows "\<exists>st'. import_loop d u now no_fault i rs st = Inr st' \<and>
     imported st' = imported st + length (filter is_accept (verdicts d u i rs)) \<and>
     skipped st' = skipped st + length (skip_messages (verdicts d u i rs)) \<and>
     errors st' = errors st @ skip_messages (verdicts d u i rs) \<and>
     conn st' = (conn st)\<lparr>open_tx := Some (foldl (apply_verdict u now) t (verdicts d u i rs))\<rparr>"
  using assms
proof (induction rs arbitrary: i st t)
  case Nil
  then show ?case by (simp add: skip_messages_def)
next
  case (Cons r rs)
  show ?case
  proof (cases "verdict_of d u i r")
    case (Skip m)
    then show ?thesis
      using Cons.IH [of "st\<lparr>errors := errors st @ [m], skipped := skipped st + 1,
                          stmts := stmts st + lookups d u i r\<rparr>" t "i + 1"] Cons.prems
      by (auto simp: import_step_None skip_messages_def is_accept_def apply_verdict_def)
  next
    case (Accept pid sid s)
    then show ?thesis
      using Cons.IH [of "st\<lparr>conn := exec_upsert pid sid s now (u_email u) (conn st),
                 imported := imported st + 1, stmts := stmts st + lookups d u i r + 1\<rparr>"
               "upsert pid sid s now (u_email u) t" "i + 1"] Cons.prems
      by (auto simp: import_step_None skip_messages_def is_accept_def apply_verdict_def
            exec_upsert_def)
  qed
qed

lemma accept_skip_count:
  "length (filter is_accept vs) + length (skip_messages vs) = length vs"
  by (induction vs) (auto simp: is_accept_def skip_messages_def split: verdict.splits)

lemma length_verdicts [simp]: "length (verdicts d u i rs) = length rs"
  by (induction rs arbitrary: i) auto

lemma skip_messages_length:
  "length (skip_messages vs) = length (filter (\<lambda>v. \<not> is_accept v) vs)"
  by (induction vs) (auto simp: is_accept_def skip_messages_def split: verdict.splits)

text \<open>The \<^verbatim>\<open>try\<close> block, entered with a client and no transaction open, \<open>n\<close> operations sent.\<close>

lemma bulk_tx_fault:
  "\<exists>st. bulk_tx d u now no_fault recs (init_state d n) = Inr st \<and> n + 2 \<le> stmts st \<and>
     imported st = length (filter is_accept (verdicts d u 0 recs)) \<and>
     skipped st = length (skip_messages (verdicts d u 0 recs)) \<and>
     errors st = skip_messages (verdicts d u 0 recs) \<and>
     conn st = idle (d\<lparr>qualifications :=
                         foldl (apply_verdict u now) (qualifications d) (verdicts d u 0 recs)\<rparr>) \<and>
     (\<forall>fault. case find fault [n..<stmts st] of
        None \<Rightarrow> bulk_tx d u now fault recs (init_state d n) = Inr st
      | Some k \<Rightarrow>
          (\<exists>s. bulk_tx d u now fault recs (init_state d n) = Inl (StoreError, s) \<and>
                stmts s = Suc k \<and> committed (conn s) = d))"
proof -
  let ?st1 = "(init_state d n)\<lparr>conn := exec_begin (conn (init_state d n)), stmts := Suc n\<rparr>"
  have o: "open_tx (conn ?st1) = Some (qualifications d)" and cm: "committed (conn ?st1) = d"
    by (simp_all add: init_state_def idle_def exec_begin_def)
  obtain st2 where l: "import_loop d u now no_fault 0 recs ?st1 = Inr st2"
    and v: "imported st2 = length (filter is_accept (verdicts d u 0 recs))"
      "skipped st2 = length (skip_messages (verdicts d u 0 recs))"
      "errors st2 = skip_messages (verdicts d u 0 recs)"
      "conn st2 = (conn ?st1)\<lparr>open_tx :=
          Some (foldl (apply_verdict u now) (qualifications d) (verdicts d u 0 recs))\<rparr>"
    using import_loop_None [OF o, of d u now 0 recs] by (auto simp: init_state_def)
  obtain st2' where l': "import_loop d u now no_fault 0 recs ?st1 = Inr st2'"
    and le: "stmts ?st1 \<le> stmts st2'"
    and f: "\<And>fault. case find fault [stmts ?st1..<stmts st2'] of
        None \<Rightarrow> import_loop d u now fault 0 recs ?st1 = Inr st2'
      | Some k \<Rightarrow>
          (\<exists>s. import_loop d u now fault 0 recs ?st1 = Inl (StoreError, s) \<and> stmts s = Suc k \<and>
                (open_tx (conn ?st1) \<noteq> None \<longrightarrow>
                   committed (conn s) = committed (conn ?st1) \<and> open_tx (conn s) \<noteq> None))"
    using import_loop_fault [of d u now 0 recs ?st1] by blast
  have same: "st2' = st2" using l l' by simp
  have le2: "Suc n \<le> stmts st2" using le same by simp
  let ?st3 = "st2\<lparr>conn := exec_commit (conn st2), stmts := Suc (stmts st2)\<rparr>"
  have c3: "conn ?st3 = idle (d\<lparr>qualifications :=
              foldl (apply_verdict u now) (qualifications d) (verdicts d u 0 recs)\<rparr>)"
    using v(4) by (simp add: exec_commit_def idle_def init_state_def exec_begin_def)
  have r0: "bulk_tx d u now no_fault recs (init_state d n) = Inr ?st3"
    using l by (simp add: bulk_tx_def init_state_def)
  have r1: "case find fault [n..<stmts ?st3] of
        None \<Rightarrow> bulk_tx d u now fault recs (init_state d n) = Inr ?st3
      | Some k \<Rightarrow>
          (\<exists>s. bulk_tx d u now fault recs (init_state d n) = Inl (StoreError, s) \<and>
                stmts s = Suc k \<and> committed (conn s) = d)" for fault
  proof (cases "fault n")
    case True
    then have "find fault [n..<stmts ?st3] = Some n"
      using le2 by (auto simp add: find_upt_Some simp del: upt_Suc)
    moreover have "bulk_tx d u now fault recs (init_state d n) =
                     Inl (StoreError, (init_state d n)\<lparr>stmts := Suc n\<rparr>)"
      using True by (simp add: bulk_tx_def query_def init_state_def)
    ultimately show ?thesis by (simp add: init_state_def idle_def)
  next
    case False
    then have b: "find fault [n..<Suc n] = None" by simp
    have e2: "find fault [stmts st2..<Suc (stmts st2)] =
                (if fault (stmts st2) then Some (stmts st2) else None)"
      by simp
    have sp: "find fault [n..<stmts ?st3] =
                (case find fault [Suc n..<stmts st2] of
                   None \<Rightarrow> (if fault (stmts st2) then Some (stmts st2) else None)
                 | Some k \<Rightarrow> Some k)"
      using find_upt_split [of n "Suc n" "Suc (stmts st2)" fault]
        find_upt_split [of "Suc n" "stmts st2" "Suc (stmts st2)" fault] le2
      by (simp add: b e2 del: upt_Suc split: option.splits)
    have q0: "query fault n () = Inr ((), Suc n)"
      using False by (simp add: query_def)
    show ?thesis
    proof (cases "find fault [Suc n..<stmts st2]")
      case (Some k)
      then obtain s where "import_loop d u now fault 0 recs ?st1 = Inl (StoreError, s)"
          "stmts s = Suc k" "committed (conn s) = d"
        using f [of fault] same o cm by auto
      then show ?thesis
        using Some sp q0 by (simp add: bulk_tx_def init_state_def)
    next
      case None
      then have lf: "import_loop d u now fault 0 recs ?st1 = Inr st2"
        using f [of fault] same by simp
      have cm2: "committed (conn st2) = d"
        using v(4) cm by simp
      show ?thesis
        using None sp q0 lf cm2
        by (simp add: bulk_tx_def init_state_def query_def)
    qed
  qed
  show ?thesis
    using r0 r1 c3 v le2 by (intro exI [of _ ?st3]) simp
qed

text \<open>What an accepted batch leaves committed, whatever the store does.\<close>

lemma bulk_import_committed:
  assumes "requireRole [''instructor'', ''admin''] u" and "recs \<noteq> []" and "length recs \<le> 1000"
  shows "committed (snd (bulk_import d u now fault (Array recs))) = d
       \<or> committed (snd (bulk_import d u now fault (Array recs))) =
           d\<lparr>qualifications := foldl (apply_verdict u now) (qualifications d) (verdicts d u 0 recs)\<rparr>"
proof (cases "fault 0")
  case True
  then show ?thesis
    using assms by (simp add: bulk_import_def query_def idle_def)
next
  case False
  obtain st where st: "conn st = idle (d\<lparr>qualifications :=
                         foldl (apply_verdict u now) (qualifications d) (verdicts d u 0 recs)\<rparr>)"
    and f: "\<And>fault. case find fault [Suc 0..<stmts st] of
        None \<Rightarrow> bulk_tx d u now fault recs (init_state d (Suc 0)) = Inr st
      | Some k \<Rightarrow>
          (\<exists>s. bulk_tx d u now fault recs (init_state d (Suc 0)) = Inl (StoreError, s) \<and>
                stmts s = Suc k \<and> committed (conn s) = d)"
    using bulk_tx_fault [of d u now recs "Suc 0"] by blast
  show ?thesis
  proof (cases "find fault [Suc 0..<stmts st]")
    case None
    then have "bulk_tx d u now fault recs (init_state d (Suc 0)) = Inr st"
      using f [of fault] by simp
    then show ?thesis
      using assms False st by (simp add: bulk_import_def query_def idle_def)
  next
    case (Some k)
    then obtain s where "bulk_tx d u now fault recs (init_state d (Suc 0)) = Inl (StoreError, s)"
        "committed (conn s) = d"
      using f [of fault] by auto
    then show ?thesis
      using assms False by (simp add: bulk_import_def query_def exec_rollback_def)
  qed
qed

section \<open>Properties of the bulk import\<close>




text \<open>
  Claim C4. For an accepted batch (caller allowed, between 1 and 1000 records) on which no
  statement throws, with \<open>N\<close> the number of records and \<open>K\<close> the number of records whose
  verdict is a skip: the report has \<open>imported = N - K\<close> and \<open>skipped = K\<close>, these add up to
  \<open>N\<close>, and \<open>errors\<close> is the first 20 of the \<open>K\<close> messages in record order, so \<open>K\<close> messages
  when \<open>K \<le> 20\<close> and 20 otherwise.
\<close>

theorem bulk_import_report_counts:
  assumes "requireRole [''instructor'', ''admin''] u" and "recs \<noteq> []" and "length recs \<le> 1000"
  shows "bulk_import d u now no_fault (Array recs) =
            (ImportReport (length recs - length (filter (\<lambda>v. \<not> is_accept v) (verdicts d u 0 recs)))
                          (length (filter (\<lambda>v. \<not> is_accept v) (verdicts d u 0 recs)))
                          (take 20 (skip_messages (verdicts d u 0 recs))),
             idle (d\<lparr>qualifications :=
                      foldl (apply_verdict u now) (qualifications d) (verdicts d u 0 recs)\<rparr>))
         \<and> (length recs - length (filter (\<lambda>v. \<not> is_accept v) (verdicts d u 0 recs)))
             + length (filter (\<lambda>v. \<not> is_accept v) (verdicts d u 0 recs)) = length recs
         \<and> length (skip_messages (verdicts d u 0 recs))
             = length (filter (\<lambda>v. \<not> is_accept v) (verdicts d u 0 recs))
         \<and> length (take 20 (skip_messages (verdicts d u 0 recs)))
             = min 20 (length (filter (\<lambda>v. \<not> is_accept v) (verdicts d u 0 recs)))"
proof -
  let ?vs = "verdicts d u 0 recs"
  let ?K = "length (filter (\<lambda>v. \<not> is_accept v) ?vs)"
  obtain st where st: "bulk_tx d u now no_fault recs (init_state d (Suc 0)) = Inr st"
     "imported st = length (filter is_accept ?vs)"
     "skipped st = length (skip_messages ?vs)"
     "errors st = skip_messages ?vs"
     "conn st = idle (d\<lparr>qualifications := foldl (apply_verdict u now) (qualifications d) ?vs\<rparr>)"
    using bulk_tx_fault [of d u now recs "Suc 0"] by blast
  have k: "length (skip_messages ?vs) = ?K"
    by (rule skip_messages_length)
  have n: "length (filter is_accept ?vs) + ?K = length recs"
    using accept_skip_count [of ?vs] k by simp
  have "bulk_import d u now no_fault (Array recs) =
          (ImportReport (length recs - ?K) ?K (take 20 (skip_messages ?vs)),
           idle (d\<lparr>qualifications := foldl (apply_verdict u now) (qualifications d) ?vs\<rparr>))"
    using assms st k n by (simp add: bulk_import_def)
  then show ?thesis
    using k n by auto
qed

theorem bulk_import_report_counts_witness:
  "fst (bulk_import ex_db ex_instructor 7 no_fault (Array ex_batch)) =
     ImportReport 1 2 [''Row 2: pilot '' @ dq @ ''Maverick'' @ dq @ '' not found'',
                       ''Row 3: pilot '' @ dq @ ''ghost'' @ dq @ '' is not in your wing'']"
proof -
  have a: "requireRole [''instructor'', ''admin''] ex_instructor" by code_simp
  have b: "ex_batch \<noteq> []" by code_simp
  have c: "length ex_batch \<le> 1000" by code_simp
  have k: "length (filter (\<lambda>v. \<not> is_accept v) (verdicts ex_db ex_instructor 0 ex_batch)) = 2"
    by code_simp
  have n: "length ex_batch = 3" by code_simp
  have m: "take 20 (skip_messages (verdicts ex_db ex_instructor 0 ex_batch)) =
             [''Row 2: pilot '' @ dq @ ''Maverick'' @ dq @ '' not found'',
              ''Row 3: pilot '' @ dq @ ''ghost'' @ dq @ '' is not in your wing'']"
    by code_simp
  show ?thesis
    using bulk_import_report_counts [OF a b c, of ex_db 7] k n m by simp
qed

text \<open>
  Claim C9. A request whose \<open>records\<close> member is missing, is not an array or is the empty
  array is answered with a request-level error (400, or 403 for a caller without the
  role) and the store is left as it was. The answer does not depend on the store (it is
  the same when the store throws from the very first operation), so neither a client is
  asked for nor a transaction opened; and it is never the empty report.
\<close>

theorem bulk_import_requires_records:
  assumes "body = Absent \<or> body = NotArray \<or> body = Array []"
  shows "bulk_import d u now fault body =
           (if requireRole [''instructor'', ''admin''] u
            then Error 400 ''records array is required''
            else Error 403 ''Insufficient permissions'', idle d)
         \<and> fst (bulk_import d u now fault body) \<noteq> ImportReport 0 0 []"
  using assms by (auto simp: bulk_import_def)

theorem bulk_import_requires_records_witness:
  "bulk_import ex_db ex_admin 7 (down_from 0) (Array []) =
     (Error 400 ''records array is required'', idle ex_db)"
proof -
  have a: "requireRole [''instructor'', ''admin''] ex_admin" by code_simp
  show ?thesis
    using bulk_import_requires_records [of "Array []" ex_db ex_admin 7 "down_from 0"] a by simp
qed

section \<open>The order of the checks\<close>

text \<open>
  Claim C2, as stated: the checks run in the order of the specification, so that a record
  whose skill matches nothing and whose pilot is outside the instructor's wing is reported
  as skill not found. The handler checks the pilot's wing before it looks the skill up:
  for an instructor of wing w1, the record (Ghost, Nope, FMQ), with Ghost a pilot of wing
  w2 and no skill named Nope, is reported as pilot not in your wing after one lookup.
\<close>

theorem validation_order_counterexample:
  "check_record ex_db ex_instructor no_fault 0 ex_rec_ghost_nope 0 =
     Inr (Skip (''Row 1: pilot '' @ dq @ ''Ghost'' @ dq @ '' is not in your wing''), 1)
   \<and> first_failure spec_order ex_db ex_instructor 0 ex_rec_ghost_nope =
     Some (''Row 1: skill '' @ dq @ ''Nope'' @ dq @ '' not found'')"
  by code_simp

text \<open>
  Claim C2, amended: the checks run short-circuit in the order presence, status, pilot
  lookup, pilot's wing against the instructor's, skill lookup, skill's wing against the
  pilot's, skill's wing against the instructor's. The message of a skipped record is that
  of the first check failing in this order, and a record is accepted exactly when none
  fails.
\<close>

theorem check_record_order:
  "check_record d u no_fault i r n = Inr (verdict_of d u i r, n + lookups d u i r)
   \<and> skip_message (verdict_of d u i r) = first_failure code_order d u i r"
proof -
  have "skip_message (verdict_of d u i r) = first_failure code_order d u i r"
    by (auto simp: verdict_of_def check_record_def code_order_def skip_message_def
          check_present_def check_status_def check_pilot_found_def check_pilot_wing_def
          check_skill_found_def check_skill_pilot_wing_def check_skill_wing_def
          first_pilot_def first_skill_def
        split: list.splits)
  then show ?thesis
    by (simp add: check_record_None)
qed

theorem check_record_order_witness:
  "first_failure code_order ex_db ex_instructor 0 ex_rec_ghost_nope =
     Some (''Row 1: pilot '' @ dq @ ''Ghost'' @ dq @ '' is not in your wing'')"
proof -
  have v: "verdict_of ex_db ex_instructor 0 ex_rec_ghost_nope =
             Skip (''Row 1: pilot '' @ dq @ ''Ghost'' @ dq @ '' is not in your wing'')"
    by code_simp
  show ?thesis
    using check_record_order [of ex_db ex_instructor 0 ex_rec_ghost_nope 0] v
    by (simp add: skip_message_def)
qed

section \<open>Instructors and pilots of other wings\<close>

text \<open>
  Claim C5, as stated: a record by an instructor that resolves to a pilot of another wing
  is skipped with a wing-scope message, whatever its other fields. The presence and status
  checks come before the lookup: for an instructor of wing w1, the record
  (ghost, landing, XX), whose callsign matches the pilot Ghost of wing w2 and no other, is
  skipped with the message of the status check.
\<close>

theorem foreign_pilot_message_counterexample:
  "u_role ex_instructor = ''instructor''
   \<and> u_wing_id ex_instructor = Some ''w1''
   \<and> select_pilots (pilots ex_db) (trim (str (callsign ex_rec_ghost_xx))) =
       [\<lparr>p_id = ''p2'', p_callsign = ''Ghost'', p_wing_id = ''w2''\<rparr>]
   \<and> bulk_import ex_db ex_instructor 7 no_fault (Array [ex_rec_ghost_xx]) =
       (ImportReport 0 1 [''Row 1: invalid status '' @ dq @ ''XX'' @ dq], idle ex_db)"
  by code_simp

text \<open>
  Claim C5, amended. Let the caller be an instructor and let the lookup of the record's
  trimmed callsign yield, as its first row, a pilot of another wing than the caller's.
  Then, whatever the other fields and whatever the store does, a pass of the loop that
  returns has not written: the store and \<open>imported\<close> are as before, \<open>skipped\<close> is one more
  and one message is added. When the store does not throw the record is skipped; and when
  it has its three fields and a valid status, the message is the one that says the pilot
  is not in the caller's wing, whatever the skill name, after that single lookup.
\<close>

theorem instructor_foreign_pilot_skipped:
  assumes "u_role u = ''instructor''"
    and "select_pilots (pilots d) (trim (str (callsign r))) = p # ps"
    and "Some (p_wing_id p) \<noteq> u_wing_id u"
  shows "(\<forall>st'. import_step d u now fault i r st = Inr st' \<longrightarrow>
            conn st' = conn st \<and> imported st' = imported st \<and>
            skipped st' = skipped st + 1 \<and> (\<exists>m. errors st' = errors st @ [m]))
       \<and> (\<exists>m. verdict_of d u i r = Skip m)
       \<and> (\<not> falsy (callsign r) \<and> \<not> falsy (skill_name r) \<and> \<not> falsy (status r) \<and>
            toUpperCase (str (status r)) \<in> set validStatuses \<longrightarrow>
            import_step d u now no_fault i r st =
              Inr (st\<lparr>errors := errors st @ [msg_pilot_not_in_wing i (str (callsign r))],
                      skipped := skipped st + 1, stmts := stmts st + 1\<rparr>))"
  using assms
  by (auto simp: import_step_def check_record_def verdict_of_def query_def no_fault_def
           split: sum.splits verdict.splits if_splits prod.splits)

theorem instructor_foreign_pilot_skipped_witness:
  "import_step ex_db ex_instructor 7 no_fault 2 ex_rec_ghost ex_state =
     Inr (ex_state\<lparr>errors := errors ex_state @ [msg_pilot_not_in_wing 2 (str (callsign ex_rec_ghost))],
                   skipped := skipped ex_state + 1, stmts := stmts ex_state + 1\<rparr>)"
proof -
  have a: "u_role ex_instructor = ''instructor''" by code_simp
  have b: "select_pilots (pilots ex_db) (trim (str (callsign ex_rec_ghost))) =
             \<lparr>p_id = ''p2'', p_callsign = ''Ghost'', p_wing_id = ''w2''\<rparr> # []"
    by code_simp
  have c: "Some (p_wing_id \<lparr>p_id = ''p2'', p_callsign = ''Ghost'', p_wing_id = ''w2''\<rparr>)
             \<noteq> u_wing_id ex_instructor"
    by code_simp
  have e: "\<not> falsy (callsign ex_rec_ghost) \<and> \<not> falsy (skill_name ex_rec_ghost) \<and>
           \<not> falsy (status ex_rec_ghost) \<and>
           toUpperCase (str (status ex_rec_ghost)) \<in> set validStatuses"
    by code_simp
  show ?thesis
    using instructor_foreign_pilot_skipped [OF a b c, of 7 no_fault 2 ex_state] e by blast
qed

section \<open>White space around the fields\<close>

lemma trim_pad:
  assumes "\<forall>c \<in> set a. is_space c" and "\<forall>c \<in> set b. is_space c"
  shows "trim (a @ s @ b) = trim s"
proof -
  have l: "dropWhile is_space (a @ s @ b) = dropWhile is_space (s @ b)"
    by (rule dropWhile_append2) (use assms(1) in auto)
  show ?thesis
  proof (cases "\<forall>c \<in> set s. is_space c")
    case True
    then have e: "dropWhile is_space (s @ b) = []" "dropWhile is_space s = []"
      using assms(2) by auto
    show ?thesis by (simp only: trim_def l e)
  next
    case False
    then have e: "dropWhile is_space (s @ b) = dropWhile is_space s @ b"
      by (auto intro: dropWhile_append1)
    have f: "dropWhile is_space (rev b @ rev (dropWhile is_space s))
               = dropWhile is_space (rev (dropWhile is_space s))"
      by (rule dropWhile_append2) (use assms(2) in auto)
    show ?thesis by (simp only: trim_def l e rev_append f)
  qed
qed

lemma verdict_pad:
  assumes "\<forall>c \<in> set a1 \<union> set a2 \<union> set b1 \<union> set b2. is_space c" and "cs \<noteq> []" and "sn \<noteq> []"
  shows "outcome (verdict_of d u i
                    \<lparr>callsign = Some (a1 @ cs @ a2), skill_name = Some (b1 @ sn @ b2), status = st\<rparr>)
       = outcome (verdict_of d u i \<lparr>callsign = Some cs, skill_name = Some sn, status = st\<rparr>)"
proof -
  have t1: "trim (a1 @ cs @ a2) = trim cs" using assms(1) by (intro trim_pad) auto
  have t2: "trim (b1 @ sn @ b2) = trim sn" using assms(1) by (intro trim_pad) auto
  show ?thesis
    using assms(2,3)
    by (auto simp: verdict_of_def check_record_def outcome_def falsy_def str_def t1 t2
             split: list.splits)
qed

text \<open>
  Claim C6, as stated: white space around any of the three fields does not change the
  outcome. The status is upper-cased but not trimmed before it is compared: the record
  (viper, Startup, FMQ) is imported, and the same record with a space before FMQ is
  skipped as having an invalid status.
\<close>

theorem status_whitespace_counterexample:
  "fst (bulk_import ex_db ex_admin 7 no_fault
          (Array [\<lparr>callsign = Some ''viper'', skill_name = Some ''Startup'', status = Some ''FMQ''\<rparr>]))
     = ImportReport 1 0 []
   \<and> fst (bulk_import ex_db ex_admin 7 no_fault
          (Array [\<lparr>callsign = Some ''viper'', skill_name = Some ''Startup'', status = Some '' FMQ''\<rparr>]))
     = ImportReport 0 1 [''Row 1: invalid status '' @ dq @ '' FMQ'' @ dq]"
  by code_simp

text \<open>
  The presence check reads the fields as sent, before any trimming: an empty callsign is
  missing, while a blank one is looked up as the empty pattern, which matches a pilot
  whose stored callsign is empty.
\<close>

lemma blank_callsign_example:
  "fst (bulk_import ex_blank_db ex_admin 7 no_fault
          (Array [\<lparr>callsign = Some [], skill_name = Some ''Startup'', status = Some ''FMQ''\<rparr>]))
     = ImportReport 0 1 [''Row 1: missing callsign, skill_name, or status'']
   \<and> fst (bulk_import ex_blank_db ex_admin 7 no_fault
          (Array [\<lparr>callsign = Some '' '', skill_name = Some ''Startup'', status = Some ''FMQ''\<rparr>]))
     = ImportReport 1 0 []"
  by code_simp

text \<open>
  Claim C6, amended: for a record whose callsign and skill name are not empty, white space
  added before and after the callsign and the skill name changes nothing to what a pass of
  the loop does: with and without it the record is imported or skipped alike, and the
  store after the pass is the same (the same row with the same stored status).
\<close>

theorem whitespace_in_lookup_fields:
  assumes "\<forall>c \<in> set a1 \<union> set a2 \<union> set b1 \<union> set b2. is_space c" and "cs \<noteq> []" and "sn \<noteq> []"
  shows "\<exists>s1 s2.
           import_step d u now no_fault i
             \<lparr>callsign = Some (a1 @ cs @ a2), skill_name = Some (b1 @ sn @ b2), status = st\<rparr> s = Inr s1
         \<and> import_step d u now no_fault i \<lparr>callsign = Some cs, skill_name = Some sn, status = st\<rparr> s = Inr s2
         \<and> imported s1 = imported s2 \<and> skipped s1 = skipped s2 \<and> conn s1 = conn s2"
proof -
  let ?r1 = "\<lparr>callsign = Some (a1 @ cs @ a2), skill_name = Some (b1 @ sn @ b2), status = st\<rparr>"
  let ?r2 = "\<lparr>callsign = Some cs, skill_name = Some sn, status = st\<rparr>"
  have "outcome (verdict_of d u i ?r1) = outcome (verdict_of d u i ?r2)"
    using assms by (rule verdict_pad)
  then show ?thesis
    by (auto simp: import_step_None outcome_def split: verdict.splits)
qed

theorem whitespace_in_lookup_fields_witness:
  "\<exists>s1 s2.
     import_step ex_db ex_admin 7 no_fault 0
       \<lparr>callsign = Some ('' '' @ ''viper'' @ [CHR 0x09]), skill_name = Some ([] @ ''Startup'' @ ''  ''),
        status = Some ''fmq''\<rparr> ex_state = Inr s1
   \<and> import_step ex_db ex_admin 7 no_fault 0
       \<lparr>callsign = Some ''viper'', skill_name = Some ''Startup'', status = Some ''fmq''\<rparr> ex_state = Inr s2
   \<and> imported s1 = imported s2 \<and> skipped s1 = skipped s2 \<and> conn s1 = conn s2"
proof -
  have a: "\<forall>c \<in> set '' '' \<union> set [CHR 0x09] \<union> set [] \<union> set ''  ''. is_space c"
    by (simp add: is_space_def)
  have b: "''viper'' \<noteq> []" by simp
  have c: "''Startup'' \<noteq> []" by simp
  show ?thesis
    by (rule whitespace_in_lookup_fields [OF a b c])
qed

section \<open>Pattern matching in the lookups\<close>

lemma lower_char_wildcard: "wildcard (lower_char c) = wildcard c"
proof (cases "(65::nat) \<le> of_char c \<and> of_char c \<le> (90::nat)")
  case True
  let ?m = "of_char c + (32::nat)"
  have m: "of_char (char_of ?m) = ?m"
    using True by simp
  have "\<not> wildcard (char_of ?m)"
  proof
    assume "wildcard (char_of ?m)"
    then have "of_char (char_of ?m) = (37::nat) \<or> of_char (char_of ?m) = (95::nat)
               \<or> of_char (char_of ?m) = (92::nat)"
      unfolding wildcard_def by (elim disjE) (simp_all only: , simp_all)
    then show False
      using m True by arith
  qed
  moreover have "\<not> wildcard c"
    using True by (auto simp: wildcard_def)
  ultimately show ?thesis
    using True by (simp add: lower_char_def)
next
  case False
  then show ?thesis by (auto simp: lower_char_def)
qed

lemma like_match_literal:
  "\<forall>c \<in> set p. \<not> wildcard c \<Longrightarrow> like_match p t = (t = p)"
proof (induction p arbitrary: t)
  case Nil
  show ?case by simp
next
  case (Cons a p)
  then show ?case
    by (cases t) (auto simp: wildcard_def)
qed

lemma like_match_percent:
  "like_match (CHR ''%'' # ps) t = (\<exists>k \<le> length t. like_match ps (drop k t))"
proof (induction t)
  case Nil
  show ?case by simp
next
  case (Cons c t)
  have "(\<exists>k \<le> Suc (length t). like_match ps (drop k (c # t)))
          = (like_match ps (c # t) \<or> (\<exists>k \<le> length t. like_match ps (drop k t)))"
  proof
    assume "\<exists>k \<le> Suc (length t). like_match ps (drop k (c # t))"
    then obtain k where k: "k \<le> Suc (length t)" "like_match ps (drop k (c # t))" by blast
    show "like_match ps (c # t) \<or> (\<exists>k \<le> length t. like_match ps (drop k t))"
    proof (cases k)
      case 0
      then show ?thesis using k by simp
    next
      case (Suc j)
      then have "j \<le> length t" "like_match ps (drop j t)" using k by simp_all
      then show ?thesis by blast
    qed
  next
    assume "like_match ps (c # t) \<or> (\<exists>k \<le> length t. like_match ps (drop k t))"
    then show "\<exists>k \<le> Suc (length t). like_match ps (drop k (c # t))"
    proof
      assume "like_match ps (c # t)"
      then have "like_match ps (drop 0 (c # t))" by simp
      then show ?thesis by blast
    next
      assume "\<exists>k \<le> length t. like_match ps (drop k t)"
      then obtain k where "k \<le> length t" "like_match ps (drop k t)" by blast
      then have "Suc k \<le> Suc (length t)" "like_match ps (drop (Suc k) (c # t))" by simp_all
      then show ?thesis by blast
    qed
  qed
  then show ?case
    using Cons.IH by simp
qed

lemma like_match_underscore:
  "like_match (CHR ''_'' # ps) t = (\<exists>c t'. t = c # t' \<and> like_match ps t')"
  by (cases t) simp_all

lemma lower_percent: "lower_char (CHR ''%'') = CHR ''%''"
  by code_simp

lemma lower_underscore: "lower_char (CHR ''_'') = CHR ''_''"
  by code_simp

lemma ilike_any: "ilike nm ''%''"
  using like_match_percent [of "[]" "toLowerCase nm"]
  by (simp add: ilike_def toLowerCase_def lower_percent del: like_match.simps)
     (simp add: exI [of _ "length nm"])

lemma ilike_percent:
  "ilike nm (CHR ''%'' # pat) = (\<exists>k \<le> length nm. ilike (drop k nm) pat)"
  using like_match_percent [of "toLowerCase pat" "toLowerCase nm"]
  by (simp add: ilike_def toLowerCase_def lower_percent drop_map del: like_match.simps)

lemma ilike_underscore:
  "ilike nm (CHR ''_'' # pat) = (\<exists>c t. nm = c # t \<and> ilike t pat)"
  using like_match_underscore [of "toLowerCase pat" "toLowerCase nm"]
  by (cases nm) (simp_all add: ilike_def toLowerCase_def lower_underscore del: like_match.simps)

lemma ilike_literal:
  assumes "\<forall>c \<in> set pat. \<not> wildcard c"
  shows "ilike nm pat = (toLowerCase nm = toLowerCase pat)"
proof -
  have "\<forall>c \<in> set (toLowerCase pat). \<not> wildcard c"
    using assms by (simp add: toLowerCase_def lower_char_wildcard)
  then show ?thesis
    by (simp add: ilike_def like_match_literal)
qed

lemma find_filter:
  "find P xs = (case filter P xs of [] \<Rightarrow> None | x # _ \<Rightarrow> Some x)"
  by (induction xs) auto

text \<open>
  Claim C10. The lookups match the stored name against the trimmed text taken as a
  pattern, without case. The pattern \<open>%\<close> matches every name; a \<open>%\<close> in a pattern matches
  any run of characters and a \<open>_\<close> any one character, so that a record can match a pilot
  or a skill whose name is not the submitted text; a text with no \<open>%\<close>, \<open>_\<close> or backslash
  matches exactly the names equal to it without case. For a record that has its three
  fields and a valid status, the pilot is the first row of the table whose callsign
  matches and the skill the first row whose name matches: further matching rows are
  ignored, and no verdict reports an ambiguity.
\<close>

theorem ilike_lookup_first_match:
  assumes "\<not> falsy (callsign r)" and "\<not> falsy (skill_name r)" and "\<not> falsy (status r)"
    and "toUpperCase (str (status r)) \<in> set validStatuses"
  shows "ilike nm ''%''
       \<and> (ilike nm (CHR ''%'' # pat) = (\<exists>k \<le> length nm. ilike (drop k nm) pat))
       \<and> (ilike nm (CHR ''_'' # pat) = (\<exists>c t. nm = c # t \<and> ilike t pat))
       \<and> ((\<forall>c \<in> set pat. \<not> wildcard c) \<longrightarrow> ilike nm pat = (toLowerCase nm = toLowerCase pat))
       \<and> verdict_of d u i r =
           (case find (\<lambda>p. ilike (p_callsign p) (trim (str (callsign r)))) (pilots d) of
              None \<Rightarrow> Skip (msg_pilot_not_found i (str (callsign r)))
            | Some p \<Rightarrow>
               if u_role u = ''instructor'' \<and> Some (p_wing_id p) \<noteq> u_wing_id u
               then Skip (msg_pilot_not_in_wing i (str (callsign r)))
               else
                 (case find (\<lambda>s. ilike (s_name s) (trim (str (skill_name r)))) (skills d) of
                    None \<Rightarrow> Skip (msg_skill_not_found i (str (skill_name r)))
                  | Some s \<Rightarrow>
                     if s_wing_id s \<noteq> p_wing_id p
                     then Skip (msg_skill_other_wing i (str (skill_name r)))
                     else if u_role u = ''instructor'' \<and> Some (s_wing_id s) \<noteq> u_wing_id u
                     then Skip (msg_skill_not_in_wing i (str (skill_name r)))
                     else Accept (p_id p) (s_id s) (toUpperCase (str (status r)))))"
proof -
  have "verdict_of d u i r =
           (case find (\<lambda>p. ilike (p_callsign p) (trim (str (callsign r)))) (pilots d) of
              None \<Rightarrow> Skip (msg_pilot_not_found i (str (callsign r)))
            | Some p \<Rightarrow>
               if u_role u = ''instructor'' \<and> Some (p_wing_id p) \<noteq> u_wing_id u
               then Skip (msg_pilot_not_in_wing i (str (callsign r)))
               else
                 (case find (\<lambda>s. ilike (s_name s) (trim (str (skill_name r)))) (skills d) of
                    None \<Rightarrow> Skip (msg_skill_not_found i (str (skill_name r)))
                  | Some s \<Rightarrow>
                     if s_wing_id s \<noteq> p_wing_id p
                     then Skip (msg_skill_other_wing i (str (skill_name r)))
                     else if u_role u = ''instructor'' \<and> Some (s_wing_id s) \<noteq> u_wing_id u
                     then Skip (msg_skill_not_in_wing i (str (skill_name r)))
                     else Accept (p_id p) (s_id s) (toUpperCase (str (status r)))))"
    using assms
    by (auto simp: verdict_of_def check_record_def select_pilots_def select_skills_def
          find_filter split: list.splits)
  then show ?thesis
    using ilike_any [of nm] ilike_percent [of nm pat] ilike_underscore [of nm pat]
      ilike_literal [of pat nm]
    by blast
qed

theorem ilike_lookup_first_match_witness:
  "verdict_of ex_db ex_admin 0 ex_rec_wild = Accept ''p1'' ''s1'' ''IP''
   \<and> length (select_pilots (pilots ex_db) (trim (str (callsign ex_rec_wild)))) = 2
   \<and> ilike ''VIPER'' ''V_P%''
   \<and> \<not> ilike ''VIPER'' ''Maverick''"
proof -
  have a: "\<not> falsy (callsign ex_rec_wild)" by code_simp
  have b: "\<not> falsy (skill_name ex_rec_wild)" by code_simp
  have c: "\<not> falsy (status ex_rec_wild)" by code_simp
  have e: "toUpperCase (str (status ex_rec_wild)) \<in> set validStatuses" by code_simp
  have v: "(case find (\<lambda>p. ilike (p_callsign p) (trim (str (callsign ex_rec_wild)))) (pilots ex_db) of
              None \<Rightarrow> Skip (msg_pilot_not_found 0 (str (callsign ex_rec_wild)))
            | Some p \<Rightarrow>
               if u_role ex_admin = ''instructor'' \<and> Some (p_wing_id p) \<noteq> u_wing_id ex_admin
               then Skip (msg_pilot_not_in_wing 0 (str (callsign ex_rec_wild)))
               else
                 (case find (\<lambda>s. ilike (s_name s) (trim (str (skill_name ex_rec_wild)))) (skills ex_db) of
                    None \<Rightarrow> Skip (msg_skill_not_found 0 (str (skill_name ex_rec_wild)))
                  | Some s \<Rightarrow>
                     if s_wing_id s \<noteq> p_wing_id p
                     then Skip (msg_skill_other_wing 0 (str (skill_name ex_rec_wild)))
                     else if u_role ex_admin = ''instructor'' \<and> Some (s_wing_id s) \<noteq> u_wing_id ex_admin
                     then Skip (msg_skill_not_in_wing 0 (str (skill_name ex_rec_wild)))
                     else Accept (p_id p) (s_id s) (toUpperCase (str (status ex_rec_wild)))))
           = Accept ''p1'' ''s1'' ''IP''"
    by code_simp
  have w: "\<forall>c \<in> set ''Maverick''. \<not> wildcard c" by code_simp
  have l: "toLowerCase ''VIPER'' \<noteq> toLowerCase ''Maverick''" by code_simp
  have n: "length (select_pilots (pilots ex_db) (trim (str (callsign ex_rec_wild)))) = 2"
    by code_simp
  have m: "ilike ''VIPER'' ''V_P%''" by code_simp
  show ?thesis
    using ilike_lookup_first_match [OF a b c e, of "''VIPER''" "''Maverick''" ex_db ex_admin 0]
      v w l n m
    by simp
qed

section \<open>Qualifications within one wing\<close>

text \<open>
  With pilot ids and skill ids unique, as their primary keys make them, the bulk import,
  the backfill and the upsert of an instructor keep every qualification within one wing.
\<close>

lemma distinct_id_eq:
  "distinct (map f xs) \<Longrightarrow> x \<in> set xs \<Longrightarrow> y \<in> set xs \<Longrightarrow> f x = f y \<Longrightarrow> x = y"
  by (auto simp: distinct_map inj_on_def)

lemma upsert_pair_ok:
  assumes "\<forall>q \<in> set qs. pair_ok P S (q_pilot_id q) (q_skill_id q)" and "pair_ok P S pid sid"
  shows "\<forall>q \<in> set (upsert pid sid x now by qs). pair_ok P S (q_pilot_id q) (q_skill_id q)"
  using assms by (auto simp: upsert_def same_key_def)

lemma accept_pair_ok:
  assumes "distinct (map p_id (pilots d))" and "distinct (map s_id (skills d))"
    and "verdict_of d u i r = Accept pid sid x"
  shows "pair_ok (pilots d) (skills d) pid sid"
proof -
  obtain p ps s ss where
    p: "select_pilots (pilots d) (trim (str (callsign r))) = p # ps" "p_id p = pid"
    and s: "select_skills (skills d) (trim (str (skill_name r))) = s # ss" "s_id s = sid"
    and w: "s_wing_id s = p_wing_id p"
    using assms(3)
    by (auto simp: verdict_of_def check_record_def split: if_splits list.splits)
  have "p \<in> set (select_pilots (pilots d) (trim (str (callsign r))))" using p by simp
  then have pin: "p \<in> set (pilots d)" by (simp add: select_pilots_def)
  have "s \<in> set (select_skills (skills d) (trim (str (skill_name r))))" using s by simp
  then have sin: "s \<in> set (skills d)" by (simp add: select_skills_def)
  show ?thesis
    unfolding pair_ok_def
  proof (intro ballI impI)
    fix p' s' assume a: "p' \<in> set (pilots d)" "s' \<in> set (skills d)" "p_id p' = pid \<and> s_id s' = sid"
    have "p' = p" using distinct_id_eq [OF assms(1) a(1) pin] a(3) p(2) by simp
    moreover have "s' = s" using distinct_id_eq [OF assms(2) a(2) sin] a(3) s(2) by simp
    ultimately show "p_wing_id p' = s_wing_id s'" using w by simp
  qed
qed

lemma verdicts_pair_ok:
  assumes "distinct (map p_id (pilots d))" and "distinct (map s_id (skills d))"
    and "\<forall>q \<in> set qs. pair_ok (pilots d) (skills d) (q_pilot_id q) (q_skill_id q)"
  shows "\<forall>q \<in> set (foldl (apply_verdict u now) qs (verdicts d u i rs)).
            pair_ok (pilots d) (skills d) (q_pilot_id q) (q_skill_id q)"
  using assms(3)
proof (induction rs arbitrary: i qs)
  case Nil
  then show ?case by simp
next
  case (Cons r rs)
  have "\<forall>q \<in> set (apply_verdict u now qs (verdict_of d u i r)).
            pair_ok (pilots d) (skills d) (q_pilot_id q) (q_skill_id q)"
  proof (cases "verdict_of d u i r")
    case (Skip m)
    then show ?thesis using Cons.prems by (simp add: apply_verdict_def)
  next
    case (Accept pid sid x)
    then show ?thesis
      using upsert_pair_ok [OF Cons.prems accept_pair_ok [OF assms(1,2) Accept]]
      by (simp add: apply_verdict_def)
  qed
  then show ?case
    using Cons.IH by simp
qed

lemma bulk_import_same_wing:
  assumes "distinct (map p_id (pilots d))" and "distinct (map s_id (skills d))" and "same_wing d"
  shows "same_wing (committed (snd (bulk_import d u now fault body)))"
proof (cases "requireRole [''instructor'', ''admin''] u \<and>
              (\<exists>recs. body = Array recs \<and> recs \<noteq> [] \<and> length recs \<le> 1000)")
  case True
  then obtain recs where b: "body = Array recs" "recs \<noteq> []" "length recs \<le> 1000"
    and r: "requireRole [''instructor'', ''admin''] u" by blast
  have "same_wing (d\<lparr>qualifications :=
          foldl (apply_verdict u now) (qualifications d) (verdicts d u 0 recs)\<rparr>)"
    using verdicts_pair_ok [OF assms(1,2), of "qualifications d" u now 0 recs] assms(3)
    by (simp add: same_wing_def)
  then show ?thesis
    using bulk_import_committed [OF r b(2,3), of d now fault] assms(3) b(1) by auto
next
  case False
  then have "snd (bulk_import d u now fault body) = idle d"
    by (auto simp: bulk_import_def split: records_field.splits)
  then show ?thesis
    using assms(3) by (simp add: idle_def)
qed

lemma foldl_insert_pair_ok:
  assumes "\<forall>k \<in> set ks. pair_ok P S (fst k) (snd k)"
    and "\<forall>q \<in> set (fst acc). pair_ok P S (q_pilot_id q) (q_skill_id q)"
  shows "\<forall>q \<in> set (fst (foldl (insert_do_nothing now by) acc ks)). pair_ok P S (q_pilot_id q) (q_skill_id q)"
  using assms
proof (induction ks arbitrary: acc)
  case Nil
  then show ?case by simp
next
  case (Cons k ks)
  have "\<forall>q \<in> set (fst (insert_do_nothing now by acc k)). pair_ok P S (q_pilot_id q) (q_skill_id q)"
    using Cons.prems by (auto simp: insert_do_nothing_def)
  then show ?case
    using Cons.IH [of "insert_do_nothing now by acc k"] Cons.prems(1) by simp
qed

lemma instructor_checks_pass:
  assumes "u_role u = ''instructor''" and "instructor_checks d u fault pid sid n0 = Inr (None, n)"
  shows "\<exists>p ps s ss. pilot_by_id (pilots d) pid = p # ps \<and> Some (p_wing_id p) = u_wing_id u \<and>
           skill_by_id (skills d) sid = s # ss \<and> Some (s_wing_id s) = u_wing_id u"
proof (cases "pilot_by_id (pilots d) pid")
  case Nil
  then show ?thesis
    using assms by (simp add: instructor_checks_def query_def split: if_splits)
next
  case pc: (Cons p ps)
  show ?thesis
  proof (cases "skill_by_id (skills d) sid")
    case Nil
    then show ?thesis
      using assms pc by (simp add: instructor_checks_def query_def split: if_splits)
  next
    case (Cons s ss)
    then show ?thesis
      using assms pc by (simp add: instructor_checks_def query_def split: if_splits)
  qed
qed

lemma backfill_select_pair_ok:
  assumes "distinct (map p_id (pilots d))" and "distinct (map s_id (skills d))"
  shows "\<forall>k \<in> set (backfill_select d). pair_ok (pilots d) (skills d) (fst k) (snd k)"
proof
  fix k assume "k \<in> set (backfill_select d)"
  then obtain p s where ps: "p \<in> set (pilots d)" "s \<in> set (skills d)" "s_wing_id s = p_wing_id p"
     "k = (p_id p, s_id s)"
    by (auto simp: backfill_select_def)
  show "pair_ok (pilots d) (skills d) (fst k) (snd k)"
    unfolding pair_ok_def
  proof (intro ballI impI)
    fix p' s' assume a: "p' \<in> set (pilots d)" "s' \<in> set (skills d)" "p_id p' = fst k \<and> s_id s' = snd k"
    have "p' = p" using distinct_id_eq [OF assms(1) a(1) ps(1)] a(3) ps(4) by simp
    moreover have "s' = s" using distinct_id_eq [OF assms(2) a(2) ps(2)] a(3) ps(4) by simp
    ultimately show "p_wing_id p' = s_wing_id s'" using ps(3) by simp
  qed
qed

lemma backfill_same_wing:
  assumes "distinct (map p_id (pilots d))" and "distinct (map s_id (skills d))" and "same_wing d"
  shows "same_wing (snd (backfill d u now fault))"
  using foldl_insert_pair_ok [OF backfill_select_pair_ok [OF assms(1,2)], of "(qualifications d, 0)" now "u_email u"]
    assms(3)
  by (auto simp: backfill_def same_wing_def query_def split: sum.splits)

lemma put_instructor_same_wing:
  assumes "distinct (map p_id (pilots d))" and "distinct (map s_id (skills d))" and "same_wing d"
    and "u_role u = ''instructor''"
  shows "same_wing (snd (put_qualification d u now fault body))"
proof -
  have ok: "pair_ok (pilots d) (skills d) pid sid"
    if chk: "instructor_checks d u fault pid sid 0 = Inr (None, n)" for pid sid n
  proof -
    obtain p ps s ss where
      p: "pilot_by_id (pilots d) pid = p # ps" "Some (p_wing_id p) = u_wing_id u"
      and s: "skill_by_id (skills d) sid = s # ss" "Some (s_wing_id s) = u_wing_id u"
      using instructor_checks_pass [OF assms(4) chk] by blast
    have "p \<in> set (pilot_by_id (pilots d) pid)" using p by simp
    then have pin: "p \<in> set (pilots d)" "p_id p = pid" by (auto simp: pilot_by_id_def)
    have "s \<in> set (skill_by_id (skills d) sid)" using s by simp
    then have sin: "s \<in> set (skills d)" "s_id s = sid" by (auto simp: skill_by_id_def)
    show ?thesis
      unfolding pair_ok_def
    proof (intro ballI impI)
      fix p' s' assume a: "p' \<in> set (pilots d)" "s' \<in> set (skills d)" "p_id p' = pid \<and> s_id s' = sid"
      have "p' = p" using distinct_id_eq [OF assms(1) a(1) pin(1)] a(3) pin(2) by simp
      moreover have "s' = s" using distinct_id_eq [OF assms(2) a(2) sin(1)] a(3) sin(2) by simp
      ultimately show "p_wing_id p' = s_wing_id s'" using p(2) s(2) by (metis option.inject)
    qed
  qed
  have "same_wing (d\<lparr>qualifications := qs\<rparr>)"
    if "instructor_checks d u fault pid sid 0 = Inr (None, n)"
       "put_upsert d u now fault pid sid x n = Inr (qs, m)" for pid sid n x qs m
    using upsert_pair_ok [OF _ ok [OF that(1)], of "qualifications d" x now "u_email u"] assms(3) that(2)
    by (auto simp: put_upsert_def same_wing_def query_def split: if_splits)
  then show ?thesis
    using assms(3)
    by (auto simp: put_qualification_def split: sum.splits option.splits prod.splits)
qed

text \<open>
  Claim C1. The upsert of an administrator has no wing check: the instructor's checks are
  skipped and nothing compares the skill's wing with the pilot's. On a database that is
  in order, an administrator's PUT of pilot p1 (wing w1) with skill s2 (wing w2) is
  answered with the stored row, and the database is no longer in order. The bulk import
  refuses the same pair from the same caller.
\<close>

theorem put_qualification_admin_cross_wing:
  "put_qualification ex_db ex_admin 7 no_fault ex_put_cross =
     (QualificationJson ex_cross_row, ex_db\<lparr>qualifications := [ex_cross_row]\<rparr>)
   \<and> same_wing ex_db \<and> \<not> same_wing (ex_db\<lparr>qualifications := [ex_cross_row]\<rparr>)
   \<and> bulk_import ex_db ex_admin 7 no_fault
        (Array [\<lparr>callsign = Some ''VIPER'', skill_name = Some ''Landing'', status = Some ''FMQ''\<rparr>])
      = (ImportReport 0 1 [''Row 1: skill '' @ dq @ ''Landing'' @ dq @
                            '' does not belong to pilot'' @ [CHR 0x27] @ ''s wing''], idle ex_db)"
  by code_simp

theorem put_qualification_admin_cross_wing_witness:
  "same_wing ex_db \<and> \<not> same_wing (snd (put_qualification ex_db ex_admin 7 no_fault ex_put_cross))"
  using put_qualification_admin_cross_wing by simp

section \<open>Combat-ready pilots\<close>

lemma having_count:
  "length (remdups (map fst (filter (\<lambda>g. snd g \<ge> 3) (group_count ks))))
     = card {k. 3 \<le> length (filter (\<lambda>x. x = k) ks)}"
proof -
  let ?c = "\<lambda>k. length (filter (\<lambda>x. x = k) ks)"
  have m: "map fst (filter (\<lambda>g. snd g \<ge> 3) (group_count ks)) = filter (\<lambda>k. 3 \<le> ?c k) (remdups ks)"
    by (simp add: group_count_def filter_map comp_def)
  have s: "set (filter (\<lambda>k. 3 \<le> ?c k) (remdups ks)) = {k. 3 \<le> ?c k}"
  proof -
    have "k \<in> set ks" if "3 \<le> ?c k" for k
    proof (rule ccontr)
      assume "k \<notin> set ks"
      then have "filter (\<lambda>x. x = k) ks = []" by (auto simp: filter_empty_conv)
      with that show False by simp
    qed
    then show ?thesis by auto
  qed
  have "distinct (filter (\<lambda>k. 3 \<le> ?c k) (remdups ks))"
    by simp
  then have "length (remdups (filter (\<lambda>k. 3 \<le> ?c k) (remdups ks))) = card (set (filter (\<lambda>k. 3 \<le> ?c k) (remdups ks)))"
    by (simp only: distinct_remdups_id distinct_card)
  then show ?thesis by (simp only: m s)
qed

lemma rows_wing:
  assumes "distinct (map p_id (pilots d))"
  shows "combat_rows d (Some w) =
           map q_pilot_id (filter (\<lambda>q. fmq_or_ip q \<and> in_wing d (Some w) (q_pilot_id q)) (qualifications d))"
proof -
  have one: "map (\<lambda>p. c) (filter (\<lambda>p. k = p_id p \<and> b \<and> p_wing_id p = w) ps)
               = (if b \<and> (\<exists>p \<in> set ps. p_id p = k \<and> p_wing_id p = w) then [c] else [])"
    if "distinct (map p_id ps)" for ps :: "pilot_row list" and k b and c :: uuid
    using that by (induction ps) (auto simp: filter_empty_conv)
  have "concat (map (\<lambda>q. map (\<lambda>p. q_pilot_id q)
                              (filter (\<lambda>p. q_pilot_id q = p_id p \<and> fmq_or_ip q \<and> p_wing_id p = w) (pilots d))) qs)
        = map q_pilot_id (filter (\<lambda>q. fmq_or_ip q \<and> in_wing d (Some w) (q_pilot_id q)) qs)" for qs
    by (induction qs) (auto simp: one [OF assms] in_wing_def)
  then show ?thesis by (simp add: combat_rows_def)
qed

lemma count_rows:
  assumes "distinct (map qual_key qs)"
  shows "length (filter (\<lambda>x. x = k) (map q_pilot_id (filter P qs)))
           = card (q_skill_id ` {q \<in> set qs. q_pilot_id q = k \<and> P q})"
proof -
  let ?R = "\<lambda>q. P q \<and> q_pilot_id q = k"
  have "distinct (map qual_key (filter ?R qs))"
    using assms by (rule distinct_map_filter)
  then have d: "distinct (filter ?R qs)" and i: "inj_on qual_key (set (filter ?R qs))"
    by (auto simp: distinct_map)
  have "inj_on q_skill_id (set (filter ?R qs))"
    using i by (auto simp: inj_on_def qual_key_def)
  then have "distinct (map q_skill_id (filter ?R qs))"
    using d by (simp add: distinct_map)
  then have "length (filter ?R qs) = card (q_skill_id ` set (filter ?R qs))"
    using distinct_card [of "map q_skill_id (filter ?R qs)"] by simp
  moreover have "set (filter ?R qs) = {q \<in> set qs. q_pilot_id q = k \<and> P q}" by auto
  moreover have "filter (\<lambda>x. x = k) (map q_pilot_id (filter P qs)) = map q_pilot_id (filter ?R qs)"
    by (simp add: filter_map comp_def)
  ultimately show ?thesis by simp
qed

text \<open>
  Claim C7. With at most one qualification row for a pilot and a skill, and pilot ids
  unique, the number that the statistics give as \<open>combat_ready_pilots\<close> is the number of
  pilots (of the wing asked for, or of all) who hold FMQ or IP on three distinct skills or
  more. So a pilot with two such skills is not counted and a pilot with three or more is.
\<close>

theorem combat_ready_count:
  assumes "distinct (map qual_key (qualifications d))" and "distinct (map p_id (pilots d))"
  shows "combat_ready_query d wing = card {pid. combat_ready d wing pid}
       \<and> stats d no_fault wingId =
           StatsJson (total_pilots_query d (if falsy wingId then None else wingId))
                     (card {pid. combat_ready d (if falsy wingId then None else wingId) pid})"
proof -
  have "combat_ready_query d w = card {pid. combat_ready d w pid}" for w
  proof (cases w)
  case None
  have "length (filter (\<lambda>x. x = k) (combat_rows d None)) = card (qualified_skills d k)" for k
    using count_rows [OF assms(1), of k fmq_or_ip]
    by (simp add: combat_rows_def qualified_skills_def)
    then show ?thesis
      using None by (simp add: combat_ready_query_def having_count combat_ready_def in_wing_def)
  next
    case (Some w)
  have "length (filter (\<lambda>x. x = k) (combat_rows d (Some w)))
          = (if in_wing d (Some w) k then card (qualified_skills d k) else 0)" for k
  proof -
    have "q_skill_id ` {q \<in> set (qualifications d). q_pilot_id q = k \<and> fmq_or_ip q \<and> in_wing d (Some w) (q_pilot_id q)}
            = (if in_wing d (Some w) k then qualified_skills d k else {})"
      by (auto simp: qualified_skills_def)
    then show ?thesis
      using count_rows [OF assms(1), of k "\<lambda>q. fmq_or_ip q \<and> in_wing d (Some w) (q_pilot_id q)"]
      by (simp add: rows_wing [OF assms(2)])
  qed
  then have "{k. 3 \<le> length (filter (\<lambda>x. x = k) (combat_rows d (Some w)))} = {pid. combat_ready d (Some w) pid}"
    by (auto simp: combat_ready_def)
    then show ?thesis
      using Some by (simp add: combat_ready_query_def having_count)
  qed
  then show ?thesis
    by (simp add: stats_def Let_def no_fault_def)
qed

theorem combat_ready_count_witness:
  "combat_ready_query ex_stats_db (Some ''w1'') = 1
   \<and> card {pid. combat_ready ex_stats_db (Some ''w1'') pid} = 1
   \<and> card (qualified_skills ex_stats_db ''p1'') = 3
   \<and> card (qualified_skills ex_stats_db ''p2'') = 2"
proof -
  have a: "distinct (map qual_key (qualifications ex_stats_db))" by code_simp
  have b: "distinct (map p_id (pilots ex_stats_db))" by code_simp
  have c: "combat_ready_query ex_stats_db (Some ''w1'') = 1" by code_simp
  have e: "card (qualified_skills ex_stats_db ''p1'') = 3" by code_simp
  have f: "card (qualified_skills ex_stats_db ''p2'') = 2" by code_simp
  show ?thesis
    using combat_ready_count [OF a b, of "Some ''w1''" None] c e f by simp
qed

section \<open>Backfill\<close>

lemma foldl_insert_keeps:
  "q \<in> set (fst acc) \<Longrightarrow> q \<in> set (fst (foldl (insert_do_nothing now by) acc ks))"
  by (induction ks arbitrary: acc) (auto simp: insert_do_nothing_def)

lemma foldl_insert_covers:
  "k \<in> set ks \<Longrightarrow> \<exists>q \<in> set (fst (foldl (insert_do_nothing now by) acc ks)). same_key (fst k) (snd k) q"
proof (induction ks arbitrary: acc)
  case Nil
  then show ?case by simp
next
  case (Cons a ks)
  show ?case
  proof (cases "k = a")
    case True
    have "\<exists>q \<in> set (fst (insert_do_nothing now by acc a)). same_key (fst a) (snd a) q"
      by (auto simp: insert_do_nothing_def same_key_def)
    then show ?thesis
      using True foldl_insert_keeps [of _ "insert_do_nothing now by acc a" now "by" ks] by auto
  next
    case False
    then show ?thesis using Cons by auto
  qed
qed

lemma backfill_select_empty:
  assumes "\<forall>p \<in> set (pilots d). \<forall>s \<in> set (skills d). s_wing_id s = p_wing_id p \<longrightarrow>
             (\<exists>q \<in> set (qualifications d). same_key (p_id p) (s_id s) q)"
  shows "backfill_select d = []"
  using assms by (auto simp: backfill_select_def filter_empty_conv)

text \<open>
  Claim C8. After a run of the backfill by an administrator, every pilot and skill of one
  wing have a qualification row; a second run on that database, pilots and skills being
  the same, inserts nothing: it reports \<open>rowsInserted = 0\<close> and leaves the database as it is.
\<close>

theorem backfill_idempotent:
  assumes "requireRole [''admin''] u" and "requireRole [''admin''] u'"
  shows "(\<forall>p \<in> set (pilots d). \<forall>s \<in> set (skills d). s_wing_id s = p_wing_id p \<longrightarrow>
            (\<exists>q \<in> set (qualifications (snd (backfill d u now no_fault))). same_key (p_id p) (s_id s) q))
       \<and> backfill (snd (backfill d u now no_fault)) u' now' no_fault
           = (BackfillJson 0, snd (backfill d u now no_fault))"
proof -
  let ?res = "foldl (insert_do_nothing now (u_email u)) (qualifications d, 0) (backfill_select d)"
  let ?d1 = "d\<lparr>qualifications := fst ?res\<rparr>"
  have d1: "snd (backfill d u now no_fault) = ?d1"
    using assms(1) by (simp add: backfill_def)
  have cov: "\<exists>q \<in> set (fst ?res). same_key (p_id p) (s_id s) q"
    if "p \<in> set (pilots d)" "s \<in> set (skills d)" "s_wing_id s = p_wing_id p" for p s
  proof (cases "\<exists>q \<in> set (qualifications d). same_key (p_id p) (s_id s) q")
    case True
    then show ?thesis
      using foldl_insert_keeps [of _ "(qualifications d, 0)" now "u_email u" "backfill_select d"]
      by auto
  next
    case False
    then have "(p_id p, s_id s) \<in> set (backfill_select d)"
      using that by (auto simp: backfill_select_def)
    then show ?thesis
      using foldl_insert_covers [of "(p_id p, s_id s)" "backfill_select d" now "u_email u" "(qualifications d, 0)"]
      by simp
  qed
  then have "backfill_select ?d1 = []"
    by (intro backfill_select_empty) simp
  then have "backfill ?d1 u' now' no_fault = (BackfillJson 0, ?d1)"
    using assms(2) by (simp add: backfill_def)
  then show ?thesis
    using cov by (simp add: d1)
qed

theorem backfill_idempotent_witness:
  "fst (backfill ex_db ex_admin 7 no_fault) = BackfillJson 2
   \<and> backfill (snd (backfill ex_db ex_admin 7 no_fault)) ex_admin 8 no_fault
       = (BackfillJson 0, snd (backfill ex_db ex_admin 7 no_fault))"
proof -
  have a: "requireRole [''admin''] ex_admin" by code_simp
  have b: "fst (backfill ex_db ex_admin 7 no_fault) = BackfillJson 2" by code_simp
  show ?thesis
    using backfill_idempotent [OF a a, of ex_db 7 8] b by simp
qed
end
